theory Spec2Isabelle
  imports Main "HOL-Library.AList" "HOL-Library.Word"
begin

section \<open>JavaScript \<open>Map\<close> objects\<close>

text \<open>
  Both source files keep their cache in a module-level \<open>new Map()\<close>. A JavaScript
  \<open>Map\<close> iterates in insertion order, \<open>set\<close> on a key that is already present replaces
  the value and keeps the key's position, \<open>set\<close> on a new key appends it, and
  \<open>keys().next().value\<close> is the first key in that order (\<open>undefined\<close> for an empty map,
  and deleting \<open>undefined\<close> from a map with string keys does nothing). The model is an
  association list in insertion order whose keys are distinct.
\<close>

type_synonym ('k, 'v) js_map = "('k \<times> 'v) list"

definition Map_get :: "('k, 'v) js_map \<Rightarrow> 'k \<Rightarrow> 'v option" where
  "Map_get m k = map_of m k"

definition Map_set :: "('k, 'v) js_map \<Rightarrow> 'k \<Rightarrow> 'v \<Rightarrow> ('k, 'v) js_map" where
  "Map_set m k v = AList.update k v m"

definition Map_delete :: "('k, 'v) js_map \<Rightarrow> 'k \<Rightarrow> ('k, 'v) js_map" where
  "Map_delete m k = AList.delete k m"

definition Map_size :: "('k, 'v) js_map \<Rightarrow> nat" where
  "Map_size m = length m"

text \<open>\<open>const k = cache.keys().next().value; cache.delete(k)\<close>\<close>

definition Map_delete_first :: "('k, 'v) js_map \<Rightarrow> ('k, 'v) js_map" where
  "Map_delete_first m = (case m of [] \<Rightarrow> [] | (k, _) # _ \<Rightarrow> Map_delete m k)"

definition Map_keys :: "('k, 'v) js_map \<Rightarrow> 'k list" where
  "Map_keys m = map fst m"

text \<open>The representation invariant of a \<open>Map\<close>: no key occurs twice.\<close>

definition Map_ok :: "('k, 'v) js_map \<Rightarrow> bool" where
  "Map_ok m = distinct (map fst m)"

section \<open>The schedule cache (\<open>src/unnamed/part_000\<close>)\<close>

definition MAX_CACHE_SIZE :: nat where
  "MAX_CACHE_SIZE = 200"

definition MIN_REQUEST_INTERVAL :: int where
  "MIN_REQUEST_INTERVAL = 2000"

text \<open>
  A cache entry \<open>{ data, expires: Date.now() + ttlMs, time: Date.now() }\<close>. Times are
  milliseconds since the epoch, as \<open>Date.now()\<close> returns them; the two reads of the clock
  in the object literal are taken at the same instant \<open>now\<close>.
\<close>

record 'v cache_entry =
  entry_data :: 'v
  entry_expires :: int
  entry_time :: int

type_synonym ('k, 'v) sched_cache = "('k, 'v cache_entry) js_map"

text \<open>
  \<open>cacheGet(key)\<close>: the result (\<open>None\<close> is JavaScript's \<open>null\<close>) and the cache after the
  call. An entry is an object, hence truthy, so \<open>!entry\<close> holds exactly for a missing key.
\<close>

definition cacheGet ::
  "('k, 'v) sched_cache \<Rightarrow> 'k \<Rightarrow> int \<Rightarrow> 'v cache_entry option \<times> ('k, 'v) sched_cache" where
  "cacheGet cache key now =
     (case Map_get cache key of
        None \<Rightarrow> (None, cache)
      | Some entry \<Rightarrow>
          if now > entry_expires entry then (None, Map_delete cache key)
          else (Some entry, cache))"

definition cacheSet ::
  "('k, 'v) sched_cache \<Rightarrow> 'k \<Rightarrow> 'v \<Rightarrow> int \<Rightarrow> int \<Rightarrow> ('k, 'v) sched_cache" where
  "cacheSet cache key d ttlMs now =
     (let cache1 = (if Map_size cache \<ge> MAX_CACHE_SIZE then Map_delete_first cache else cache)
      in Map_set cache1 key \<lparr>entry_data = d, entry_expires = now + ttlMs, entry_time = now\<rparr>)"

section \<open>The flight-times cache (\<open>src/api/flight-times.js\<close>)\<close>

definition CACHE_TTL_MS :: int where
  "CACHE_TTL_MS = 120000"

record 'v fa_entry =
  fa_data :: 'v
  fa_ts :: int

type_synonym ('k, 'v) fa_cache = "('k, 'v fa_entry) js_map"

text \<open>
  \<open>getCached(key)\<close> returns \<open>entry.data\<close>; the only caller of \<open>setCache\<close> stores a result
  object, so a returned value is never confused with \<open>null\<close>.
\<close>

definition getCached ::
  "('k, 'v) fa_cache \<Rightarrow> 'k \<Rightarrow> int \<Rightarrow> 'v option \<times> ('k, 'v) fa_cache" where
  "getCached cache key now =
     (case Map_get cache key of
        None \<Rightarrow> (None, cache)
      | Some entry \<Rightarrow>
          if now - fa_ts entry > CACHE_TTL_MS then (None, Map_delete cache key)
          else (Some (fa_data entry), cache))"

definition setCache :: "('k, 'v) fa_cache \<Rightarrow> 'k \<Rightarrow> 'v \<Rightarrow> int \<Rightarrow> ('k, 'v) fa_cache" where
  "setCache cache key d now =
     (let cache1 = (if Map_size cache > 200 then Map_delete_first cache else cache)
      in Map_set cache1 key \<lparr>fa_data = d, fa_ts = now\<rparr>)"

text \<open>Filling a cache: one \<open>set\<close> per (key, value, time) triple, in order.\<close>

fun cacheSet_all ::
  "('k, 'v) sched_cache \<Rightarrow> ('k \<times> 'v \<times> int \<times> int) list \<Rightarrow> ('k, 'v) sched_cache" where
  "cacheSet_all cache [] = cache"
| "cacheSet_all cache ((key, d, ttlMs, now) # rest) =
     cacheSet_all (cacheSet cache key d ttlMs now) rest"

fun setCache_all :: "('k, 'v) fa_cache \<Rightarrow> ('k \<times> 'v \<times> int) list \<Rightarrow> ('k, 'v) fa_cache" where
  "setCache_all cache [] = cache"
| "setCache_all cache ((key, d, now) # rest) = setCache_all (setCache cache key d now) rest"

section \<open>Strings\<close>

text \<open>
  A JavaScript string is a sequence of 16-bit code units (UTF-16). The strings whose
  characters the program inspects (the flight designator of \<open>normalizeFlightNumber\<close>, the
  timestamp and the page number of the schedule endpoint) are lists of code units;
  strings that the program only compares, stores or prints stay Isabelle strings.
  \<open>str\<close> is the JavaScript string of an ASCII literal.
\<close>

type_synonym code_unit = "16 word"

type_synonym js_string = "code_unit list"

definition str :: "string \<Rightarrow> js_string" where
  "str s = map (\<lambda>c. of_nat (of_char c)) s"

text \<open>
  The white space of \<open>trim\<close>, of the regular expression class \<open>\s\<close> and of \<open>parseInt\<close> is
  ECMAScript's \<open>WhiteSpace\<close> and \<open>LineTerminator\<close>: U+0009 to U+000D, U+0020, U+00A0,
  U+FEFF, the other space separators U+1680, U+2000 to U+200A, U+202F, U+205F and
  U+3000, and U+2028 and U+2029. All of them are single code units.
\<close>

definition isWhiteSpace :: "code_unit \<Rightarrow> bool" where
  "isWhiteSpace u =
     (let n = unat u in
      (0x09 \<le> n \<and> n \<le> 0x0D) \<or> n = 0x20 \<or> n = 0xA0 \<or> n = 0x1680 \<or>
      (0x2000 \<le> n \<and> n \<le> 0x200A) \<or> n = 0x2028 \<or> n = 0x2029 \<or> n = 0x202F \<or>
      n = 0x205F \<or> n = 0x3000 \<or> n = 0xFEFF)"

text \<open>The class \<open>\d\<close> of a regular expression without the \<open>u\<close> flag: \<open>0\<close>..\<open>9\<close>.\<close>

definition isDecimalDigit :: "code_unit \<Rightarrow> bool" where
  "isDecimalDigit u = (0x30 \<le> unat u \<and> unat u \<le> 0x39)"

text \<open>
  The code points of a string (ECMAScript's \<open>StringToCodePoints\<close>): a leading surrogate
  followed by a trailing surrogate is one code point from U+10000 on, every other code
  unit is a code point by itself, also a surrogate without its partner.
\<close>

definition isLeadingSurrogate :: "code_unit \<Rightarrow> bool" where
  "isLeadingSurrogate u = (0xD800 \<le> unat u \<and> unat u \<le> 0xDBFF)"

definition isTrailingSurrogate :: "code_unit \<Rightarrow> bool" where
  "isTrailingSurrogate u = (0xDC00 \<le> unat u \<and> unat u \<le> 0xDFFF)"

definition UTF16SurrogatePairToCodePoint :: "code_unit \<Rightarrow> code_unit \<Rightarrow> nat" where
  "UTF16SurrogatePairToCodePoint lead trail =
     (unat lead - 0xD800) * 0x400 + (unat trail - 0xDC00) + 0x10000"

fun StringToCodePoints :: "js_string \<Rightarrow> nat list" where
  "StringToCodePoints [] = []"
| "StringToCodePoints [u] = [unat u]"
| "StringToCodePoints (u # v # rest) =
     (if isLeadingSurrogate u \<and> isTrailingSurrogate v
      then UTF16SurrogatePairToCodePoint u v # StringToCodePoints rest
      else unat u # StringToCodePoints (v # rest))"

text \<open>
  The code units of a code point up to U+10FFFF (\<open>UTF16EncodeCodePoint\<close>), and the string
  of a list of code points.
\<close>

definition UTF16EncodeCodePoint :: "nat \<Rightarrow> js_string" where
  "UTF16EncodeCodePoint cp =
     (if cp \<le> 0xFFFF then [of_nat cp]
      else [of_nat ((cp - 0x10000) div 0x400 + 0xD800), of_nat ((cp - 0x10000) mod 0x400 + 0xDC00)])"

definition CodePointsToString :: "nat list \<Rightarrow> js_string" where
  "CodePointsToString cps = concat (map UTF16EncodeCodePoint cps)"

text \<open>
  \<open>s.toUpperCase()\<close> takes the code points of \<open>s\<close>, replaces each by its uppercase mapping
  in Unicode (one code point or several: U+00DF becomes \<open>SS\<close>) and encodes the result;
  the mapping of a code point depends neither on its neighbours nor on a locale. Up to
  U+007F the mapping is that of ASCII, \<open>a\<close>..\<open>z\<close> to \<open>A\<close>..\<open>Z\<close>. From U+0080 on it is read
  from the Unicode data that the JavaScript engine carries, which is not part of the
  repository: it is the parameter \<open>tbl\<close>.
\<close>

type_synonym case_mapping = "nat \<Rightarrow> nat list"

definition toUppercase :: "case_mapping \<Rightarrow> nat \<Rightarrow> nat list" where
  "toUppercase tbl cp =
     (if cp < 0x80 then [if 0x61 \<le> cp \<and> cp \<le> 0x7A then cp - 0x20 else cp] else tbl cp)"

definition toUpperCase :: "case_mapping \<Rightarrow> js_string \<Rightarrow> js_string" where
  "toUpperCase tbl s =
     CodePointsToString (concat (map (toUppercase tbl) (StringToCodePoints s)))"

definition trim :: "js_string \<Rightarrow> js_string" where
  "trim s = rev (dropWhile isWhiteSpace (rev (dropWhile isWhiteSpace s)))"

text \<open>\<open>s.replace(/\s+/g, '')\<close>: every maximal run of white space is deleted.\<close>

definition replace_spaces :: "js_string \<Rightarrow> js_string" where
  "replace_spaces s = filter (\<lambda>c. \<not> isWhiteSpace c) s"

definition startsWith :: "js_string \<Rightarrow> js_string \<Rightarrow> bool" where
  "startsWith s p = (take (length p) s = p)"

text \<open>\<open>/^\d{1,4}$/.test(q)\<close>\<close>

definition digits_1_4 :: "js_string \<Rightarrow> bool" where
  "digits_1_4 q = (1 \<le> length q \<and> length q \<le> 4 \<and> list_all isDecimalDigit q)"

section \<open>Errors\<close>

datatype js_error =
    TypeError
  | RangeError
  | AbortError
  | FR24_returned nat
  | No_schedule_data
  | Error string

section \<open>\<open>normalizeFlightNumber\<close> (\<open>src/api/flight-times.js\<close>)\<close>

text \<open>
  The argument is \<open>req.query.flight\<close>: absent, a string, or an array of strings when the
  parameter is repeated; \<open>null\<close> is included because callers may pass it.
\<close>

datatype raw_flight = RUndefined | RNull | RStr js_string | RArr "js_string list"

text \<open>
  \<open>(raw || '')\<close> is the empty string for \<open>undefined\<close>, \<open>null\<close> and the empty string, and
  \<open>raw\<close> itself otherwise. An array is truthy (also the empty one) and has no \<open>trim\<close>
  method, so \<open>(raw || '').trim()\<close> raises a \<open>TypeError\<close>. \<open>q.slice(2)\<close> drops two code
  units.
\<close>

definition normalizeFlightNumber :: "case_mapping \<Rightarrow> raw_flight \<Rightarrow> js_error + js_string" where
  "normalizeFlightNumber tbl raw =
     (case raw of
        RArr xs \<Rightarrow> Inl TypeError
      | _ \<Rightarrow>
        (let s = (case raw of RStr s \<Rightarrow> s | _ \<Rightarrow> []);
             q = replace_spaces (toUpperCase tbl (trim s));
             q = (if startsWith q (str ''UA'') \<and> \<not> startsWith q (str ''UAL'')
                  then str ''UAL'' @ drop 2 q else q);
             q = (if digits_1_4 q then str ''UAL'' @ q else q)
         in Inr q))"

text \<open>The first element of an array, \<open>arr[0]\<close>: \<open>undefined\<close> when the array is empty.\<close>

definition first_element :: "js_string list \<Rightarrow> raw_flight" where
  "first_element xs = (case xs of [] \<Rightarrow> RUndefined | x # _ \<Rightarrow> RStr x)"

section \<open>\<open>Date\<close> and \<open>epochToISO\<close> (\<open>src/api/flight-times.js\<close>)\<close>

text \<open>
  \<open>new Date(tv).toISOString()\<close> follows ECMAScript (Date objects): a time value is a
  number of milliseconds since 1970-01-01T00:00:00Z, valid up to 8.64e15 in absolute
  value; beyond that the date is invalid and \<open>toISOString\<close> raises a \<open>RangeError\<close>. The
  calendar fields are those of the proleptic Gregorian calendar.
\<close>

definition msPerDay :: int where
  "msPerDay = 86400000"

definition Day :: "int \<Rightarrow> int" where
  "Day t = t div msPerDay"

definition TimeWithinDay :: "int \<Rightarrow> int" where
  "TimeWithinDay t = t mod msPerDay"

definition DaysInYear :: "int \<Rightarrow> int" where
  "DaysInYear y =
     (if y mod 4 \<noteq> 0 then 365 else if y mod 100 \<noteq> 0 then 366
      else if y mod 400 \<noteq> 0 then 365 else 366)"

definition DayFromYear :: "int \<Rightarrow> int" where
  "DayFromYear y =
     365 * (y - 1970) + (y - 1969) div 4 - (y - 1901) div 100 + (y - 1601) div 400"

text \<open>
  The year of a day number, and the day within that year: walk from year \<open>y\<close> with \<open>d\<close>
  days still to account for.
\<close>

function year_split :: "int \<Rightarrow> int \<Rightarrow> int \<times> int" where
  "year_split y d =
     (if d < 0 then year_split (y - 1) (d + DaysInYear (y - 1))
      else if d \<ge> DaysInYear y then year_split (y + 1) (d - DaysInYear y)
      else (y, d))"
  by pat_completeness auto
termination
  by (relation "measure (\<lambda>(y, d). if d < 0 then nat (366 - d) else nat d)")
     (auto simp: DaysInYear_def)

declare year_split.simps [simp del]

definition month_lengths :: "int \<Rightarrow> int list" where
  "month_lengths y =
     [31, if DaysInYear y = 366 then 29 else 28, 31, 30, 31, 30, 31, 31, 30, 31, 30, 31]"

fun month_split :: "int list \<Rightarrow> int \<Rightarrow> int \<Rightarrow> int \<times> int" where
  "month_split [] m d = (m, d)"
| "month_split (l # ls) m d = (if d < l then (m, d) else month_split ls (m + 1) (d - l))"

definition YearFromTime :: "int \<Rightarrow> int" where
  "YearFromTime t = fst (year_split 1970 (Day t))"

definition DayWithinYear :: "int \<Rightarrow> int" where
  "DayWithinYear t = snd (year_split 1970 (Day t))"

text \<open>Months are numbered from 0, days of the month from 1, as in ECMAScript.\<close>

definition MonthFromTime :: "int \<Rightarrow> int" where
  "MonthFromTime t = fst (month_split (month_lengths (YearFromTime t)) 0 (DayWithinYear t))"

definition DateFromTime :: "int \<Rightarrow> int" where
  "DateFromTime t = snd (month_split (month_lengths (YearFromTime t)) 0 (DayWithinYear t)) + 1"

definition HourFromTime :: "int \<Rightarrow> int" where
  "HourFromTime t = (t div 3600000) mod 24"

definition MinFromTime :: "int \<Rightarrow> int" where
  "MinFromTime t = (t div 60000) mod 60"

definition SecFromTime :: "int \<Rightarrow> int" where
  "SecFromTime t = (t div 1000) mod 60"

definition msFromTime :: "int \<Rightarrow> int" where
  "msFromTime t = t mod 1000"

text \<open>The inverse direction, ECMAScript's \<open>MakeTime\<close>, \<open>MakeDay\<close> and \<open>MakeDate\<close>.\<close>

definition MakeTime :: "int \<Rightarrow> int \<Rightarrow> int \<Rightarrow> int \<Rightarrow> int" where
  "MakeTime h m s ms = h * 3600000 + m * 60000 + s * 1000 + ms"

definition MakeDay :: "int \<Rightarrow> int \<Rightarrow> int \<Rightarrow> int" where
  "MakeDay y m dt = DayFromYear y + sum_list (take (nat m) (month_lengths y)) + dt - 1"

definition MakeDate :: "int \<Rightarrow> int \<Rightarrow> int" where
  "MakeDate day time = day * msPerDay + time"

text \<open>Decimal digits, most significant first, padded with zeros to a width.\<close>

definition digitChar :: "int \<Rightarrow> char" where
  "digitChar n = char_of (48 + nat (n mod 10))"

fun pad :: "nat \<Rightarrow> int \<Rightarrow> string" where
  "pad 0 n = []"
| "pad (Suc w) n = pad w (n div 10) @ [digitChar n]"

text \<open>
  Years 0 to 9999 print with four digits, the others as an expanded year: a sign and six
  digits.
\<close>

definition yearString :: "int \<Rightarrow> string" where
  "yearString y =
     (if 0 \<le> y \<and> y \<le> 9999 then pad 4 y
      else (if y < 0 then ''-'' else ''+'') @ pad 6 (abs y))"

definition toISOString :: "int \<Rightarrow> js_error + string" where
  "toISOString tv =
     (if abs tv > 8640000000000000 then Inl RangeError
      else Inr (yearString (YearFromTime tv) @ ''-'' @ pad 2 (MonthFromTime tv + 1) @ ''-''
                @ pad 2 (DateFromTime tv) @ ''T'' @ pad 2 (HourFromTime tv) @ '':''
                @ pad 2 (MinFromTime tv) @ '':'' @ pad 2 (SecFromTime tv) @ ''.''
                @ pad 3 (msFromTime tv) @ ''Z''))"

text \<open>
  The argument of \<open>epochToISO\<close> is an optional field of the scraped data: \<open>undefined\<close>,
  \<open>null\<close> or a number of seconds.
\<close>

datatype 'a nullable = Undefined | Null | Val 'a

definition epochToISO :: "int nullable \<Rightarrow> js_error + string" where
  "epochToISO epoch =
     (case epoch of
        Val n \<Rightarrow> if n = 0 then Inr [] else toISOString (n * 1000)
      | _ \<Rightarrow> Inr [])"

section \<open>The per-client limiter (\<open>src/api/flight-times.js\<close>)\<close>

text \<open>
  \<open>rateLimitByIp\<close> maps a client to its array of call times. \<open>isRateLimited(req)\<close> reads
  the clock once (\<open>now\<close>) and derives the client from the request (\<open>ip\<close> stands for
  \<open>getClientIp(req)\<close>). The \<open>while\<close> loop shifts entries off the front of the array as long
  as the first one is older than the window; the array is mutated in place, so the map
  holds the pruned array also when the call is refused. The result \<open>True\<close> means limited.
\<close>

type_synonym 'ip rate_log = "'ip \<Rightarrow> int list option"

definition isRateLimited :: "'ip rate_log \<Rightarrow> int \<Rightarrow> 'ip \<Rightarrow> bool \<times> 'ip rate_log" where
  "isRateLimited rateLimitByIp now ip =
     (let ipLog = (case rateLimitByIp ip of None \<Rightarrow> [] | Some l \<Rightarrow> l);
          ipLog = dropWhile (\<lambda>t. t < now - 60000) ipLog
      in if length ipLog \<ge> 5 then (True, rateLimitByIp(ip \<mapsto> ipLog))
         else (False, rateLimitByIp(ip \<mapsto> ipLog @ [now])))"

text \<open>A client calling at the given times, one call after the other: the answers.\<close>

fun isRateLimited_calls :: "'ip rate_log \<Rightarrow> 'ip \<Rightarrow> int list \<Rightarrow> bool list \<times> 'ip rate_log" where
  "isRateLimited_calls m ip [] = ([], m)"
| "isRateLimited_calls m ip (now # rest) =
     (let (r, m1) = isRateLimited m now ip;
          (rs, m2) = isRateLimited_calls m1 ip rest
      in (r # rs, m2))"

section \<open>Selecting the tracked flight (\<open>src/api/flight-times.js\<close>)\<close>

text \<open>
  An activity-log entry of the scraped data, with the field the selection reads,
  \<open>f.gateDepartureTimes?.scheduled\<close>: \<open>None\<close> when the field is missing or \<open>null\<close>,
  otherwise an epoch in seconds.
\<close>

record tracked_flight =
  tf_ident :: string
  tf_gate_departure_scheduled :: "int option"

text \<open>JavaScript's truthiness of an optional number: present and not zero.\<close>

definition truthy :: "int option \<Rightarrow> bool" where
  "truthy x = (case x of None \<Rightarrow> False | Some n \<Rightarrow> n \<noteq> 0)"

text \<open>
  One pass of the loop body for a key whose activity log starts with \<open>f\<close>:
  \<open>if (!bestFlight || (f.scheduled && (!bestFlight.scheduled || f.scheduled > bestFlight.scheduled)))\<close>.
\<close>

definition update_best ::
  "(string \<times> tracked_flight) option \<Rightarrow> string \<Rightarrow> tracked_flight \<Rightarrow> (string \<times> tracked_flight) option" where
  "update_best best key f =
     (case best of
        None \<Rightarrow> Some (key, f)
      | Some (bestKey, bestFlight) \<Rightarrow>
          if truthy (tf_gate_departure_scheduled f) \<and>
             (\<not> truthy (tf_gate_departure_scheduled bestFlight) \<or>
              the (tf_gate_departure_scheduled f) > the (tf_gate_departure_scheduled bestFlight))
          then Some (key, f) else best)"

text \<open>
  The loop over \<open>Object.entries(flights)\<close>; the second component of an entry is
  \<open>val?.activityLog?.flights\<close>, \<open>None\<close> when it is missing.
\<close>

fun bestFlight_loop ::
  "(string \<times> tracked_flight list option) list \<Rightarrow> (string \<times> tracked_flight) option \<Rightarrow>
   (string \<times> tracked_flight) option" where
  "bestFlight_loop [] best = best"
| "bestFlight_loop ((key, val) # rest) best =
     (case (case val of None \<Rightarrow> [] | Some l \<Rightarrow> l) of
        [] \<Rightarrow> bestFlight_loop rest best
      | f # _ \<Rightarrow> bestFlight_loop rest (update_best best key f))"

text \<open>The candidates: the first activity-log entry of every key whose log is not empty.\<close>

fun candidates ::
  "(string \<times> tracked_flight list option) list \<Rightarrow> (string \<times> tracked_flight) list" where
  "candidates [] = []"
| "candidates ((key, val) # rest) =
     (case (case val of None \<Rightarrow> [] | Some l \<Rightarrow> l) of
        [] \<Rightarrow> candidates rest
      | f # _ \<Rightarrow> (key, f) # candidates rest)"

text \<open>
  The part of the handler from the parsed data to the choice: status 404 with the
  message when no flight was chosen, the chosen flight otherwise.
\<close>

definition select_flight ::
  "(string \<times> tracked_flight list option) list \<Rightarrow> (nat \<times> string) + (string \<times> tracked_flight)" where
  "select_flight flights =
     (case bestFlight_loop flights None of
        None \<Rightarrow> Inl (404, ''No active flight found'')
      | Some b \<Rightarrow> Inr b)"

section \<open>The schedule endpoint (\<open>src/unnamed/part_000\<close>)\<close>

subsection \<open>Upstream data\<close>

text \<open>
  A flight of an upstream page with the fields the aggregator reads:
  \<open>fl.airline?.code?.iata\<close>, \<open>fl.time?.scheduled?.departure\<close> and
  \<open>fl.time?.scheduled?.arrival\<close> (\<open>None\<close> when missing). A page is \<open>sched.page?.total\<close>
  and \<open>sched.data\<close>, whose entries are given by their \<open>flight\<close> field (\<open>None\<close> when it is
  missing).
\<close>

record fr24_flight =
  fl_ident :: string
  fl_airline_iata :: "string option"
  fl_scheduled_departure :: "int option"
  fl_scheduled_arrival :: "int option"

record sched_page =
  sp_page_total :: "int option"
  sp_data :: "fr24_flight option list option"

text \<open>The request of \<open>fetchOnePage\<close>: hub, direction, timestamp (\<open>None\<close> is \<open>NaN\<close>), page.\<close>

datatype fr24_url = FR24_url string string "int option" int

datatype http_body = Bad_json string | Json "sched_page option"

text \<open>
  What \<open>fetch\<close> does: it rejects with an \<open>AbortError\<close> when the 8000 ms timer aborts it,
  rejects with another error, or resolves to a response with its \<open>ok\<close> flag, status and
  body; the body is text that is not JSON, or JSON whose
  \<open>result.response.airport.pluginData.schedule[dir]\<close> is a page or is missing.
\<close>

datatype fetch_result = Fetch_aborted | Fetch_failed string | Http_response bool nat http_body

text \<open>
  The environment answers the \<open>n\<close>-th dispatched request. It also fixes the drift of the
  timer of the rate limiter, that is by how much the clock of \<open>Date.now()\<close> has moved
  beyond the requested delay when the timer resumes the call (positive for a late
  timer, negative for one that fires early by that clock), and how long the request
  takes, both in milliseconds.
\<close>

record upstream_step =
  us_timer_drift :: int
  us_took :: nat
  us_result :: fetch_result

type_synonym upstream = "nat \<Rightarrow> fr24_url \<Rightarrow> upstream_step"

subsection \<open>State\<close>

text \<open>
  Cache keys are the template strings \<open>sched:hub:dir:ts:page\<close> and \<open>agg:hub:dir:ts\<close>, kept
  as their components.
\<close>

datatype cache_key = Sched_key string string "int option" int | Agg_key string string "int option"

record agg_result =
  ar_flights :: "fr24_flight list"
  ar_total :: nat
  ar_totalFetched :: nat
  ar_pagesScanned :: int
  ar_totalPages :: int
  ar_hub :: string
  ar_dir :: string

datatype payload = Page_payload sched_page | Agg_payload agg_result

text \<open>
  The module state (\<open>cache\<close>, \<open>lastFR24Request\<close>), the clock that \<open>Date.now()\<close> reads, and
  two logs: the cache lookups made and the requests dispatched to the upstream, each with
  the time of its dispatch. The clock moves only while the code waits.
\<close>

record world =
  w_cache :: "(cache_key, payload) sched_cache"
  w_lastFR24Request :: int
  w_clock :: int
  w_lookups :: "cache_key list"
  w_dispatched :: "(int \<times> fr24_url) list"

definition world_cacheGet :: "cache_key \<Rightarrow> world \<Rightarrow> payload cache_entry option \<times> world" where
  "world_cacheGet key w =
     (let (r, c) = cacheGet (w_cache w) key (w_clock w)
      in (r, w\<lparr>w_cache := c, w_lookups := w_lookups w @ [key]\<rparr>))"

definition world_cacheSet :: "cache_key \<Rightarrow> payload \<Rightarrow> int \<Rightarrow> world \<Rightarrow> world" where
  "world_cacheSet key d ttlMs w = w\<lparr>w_cache := cacheSet (w_cache w) key d ttlMs (w_clock w)\<rparr>"

subsection \<open>\<open>rateLimitedFetch\<close> and \<open>fetchOnePage\<close>\<close>

text \<open>
  \<open>await new Promise(r => setTimeout(r, wait))\<close> suspends the call on a timer of \<open>wait\<close>
  milliseconds; when the call resumes, \<open>Date.now()\<close> has moved by \<open>wait\<close> and the drift
  of the timer, and the code does not read the clock to check that \<open>wait\<close> milliseconds
  have passed. \<open>lastFR24Request = Date.now()\<close> and the call of \<open>fetch\<close> follow at once,
  so the time of dispatch is the new \<open>lastFR24Request\<close>.
\<close>

definition rateLimitedFetch ::
  "upstream \<Rightarrow> fr24_url \<Rightarrow> world \<Rightarrow> (js_error + bool \<times> nat \<times> http_body) \<times> world" where
  "rateLimitedFetch up url w =
     (let step = up (length (w_dispatched w)) url;
          now = w_clock w;
          wait = max 0 (MIN_REQUEST_INTERVAL - (now - w_lastFR24Request w));
          w1 = (if wait > 0 then w\<lparr>w_clock := now + wait + us_timer_drift step\<rparr> else w);
          w2 = w1\<lparr>w_lastFR24Request := w_clock w1\<rparr>;
          w3 = w2\<lparr>w_dispatched := w_dispatched w2 @ [(w_clock w2, url)],
                  w_clock := w_clock w2 + int (us_took step)\<rparr>
      in (case us_result step of
            Fetch_aborted \<Rightarrow> Inl AbortError
          | Fetch_failed m \<Rightarrow> Inl (Error m)
          | Http_response ok st b \<Rightarrow> Inr (ok, st, b),
          w3))"

definition fetchOnePage ::
  "upstream \<Rightarrow> string \<Rightarrow> string \<Rightarrow> int option \<Rightarrow> int \<Rightarrow> world \<Rightarrow> (js_error + sched_page) \<times> world" where
  "fetchOnePage up hub dir timestamp page w =
     (case rateLimitedFetch up (FR24_url hub dir timestamp page) w of
        (Inl e, w1) \<Rightarrow> (Inl e, w1)
      | (Inr (ok, st, b), w1) \<Rightarrow>
          if \<not> ok then (Inl (FR24_returned st), w1)
          else (case b of
                  Bad_json m \<Rightarrow> (Inl (Error m), w1)
                | Json None \<Rightarrow> (Inl No_schedule_data, w1)
                | Json (Some sched) \<Rightarrow> (Inr sched, w1)))"

text \<open>Acquiring the limiter several times in a row, after an idle time before each call.\<close>

fun rateLimitedFetch_calls :: "upstream \<Rightarrow> (nat \<times> fr24_url) list \<Rightarrow> world \<Rightarrow> world" where
  "rateLimitedFetch_calls up [] w = w"
| "rateLimitedFetch_calls up ((idle, url) # rest) w =
     rateLimitedFetch_calls up rest
       (snd (rateLimitedFetch up url (w\<lparr>w_clock := w_clock w + int idle\<rparr>)))"

text \<open>Consecutive elements of a list of times are at least \<open>gap\<close> apart.\<close>

fun spaced :: "int \<Rightarrow> int list \<Rightarrow> bool" where
  "spaced gap [] = True"
| "spaced gap [t] = True"
| "spaced gap (t # u # rest) = (u - t \<ge> gap \<and> spaced gap (u # rest))"

subsection \<open>\<open>parseInt\<close>\<close>

text \<open>
  \<open>parseInt(string)\<close> without a radix: leading white space is skipped, a sign is read, a
  prefix \<open>0x\<close> or \<open>0X\<close> selects radix 16, and the longest prefix of digits is the value;
  with no digit the result is \<open>NaN\<close>, here \<open>None\<close>. The value is kept exact (JavaScript
  rounds beyond 2^53).
\<close>

definition digitValue :: "code_unit \<Rightarrow> nat option" where
  "digitValue c =
     (let n = unat c in
      if 48 \<le> n \<and> n \<le> 57 then Some (n - 48)
      else if 97 \<le> n \<and> n \<le> 102 then Some (n - 87)
      else if 65 \<le> n \<and> n \<le> 70 then Some (n - 55)
      else None)"

definition isRadixDigit :: "nat \<Rightarrow> code_unit \<Rightarrow> bool" where
  "isRadixDigit radix c = (case digitValue c of None \<Rightarrow> False | Some v \<Rightarrow> v < radix)"

definition parseInt :: "js_string \<Rightarrow> int option" where
  "parseInt input =
     (let s = dropWhile isWhiteSpace input;
          neg = startsWith s (str ''-'');
          s = (if startsWith s (str ''-'') \<or> startsWith s (str ''+'') then drop 1 s else s);
          hex = (startsWith s (str ''0x'') \<or> startsWith s (str ''0X''));
          radix = (if hex then 16 else 10);
          s = (if hex then drop 2 s else s);
          z = takeWhile (isRadixDigit radix) s;
          v = foldl (\<lambda>a c. a * int radix + int (the (digitValue c))) 0 z
      in if z = [] then None else Some (if neg then - v else v))"

subsection \<open>The aggregation loop\<close>

definition MAX_PAGES :: int where
  "MAX_PAGES = 20"

definition flightTime :: "string \<Rightarrow> fr24_flight \<Rightarrow> int option" where
  "flightTime dir fl =
     (if dir = ''departures'' then fl_scheduled_departure fl else fl_scheduled_arrival fl)"

text \<open>
  \<open>flightTime && flightTime >= dayEnd\<close>; a comparison with \<open>NaN\<close> is false.
\<close>

definition past_day :: "string \<Rightarrow> int option \<Rightarrow> fr24_flight \<Rightarrow> bool" where
  "past_day dir dayEnd fl =
     (truthy (flightTime dir fl) \<and>
      (case dayEnd of None \<Rightarrow> False | Some e \<Rightarrow> the (flightTime dir fl) \<ge> e))"

text \<open>
  The \<open>for\<close> loop over the entries of one page: the flag \<open>pastDay\<close> and \<open>allUAFlights\<close>
  after it. \<open>continue\<close> goes on with the rest, \<open>break\<close> returns.
\<close>

fun scan_page ::
  "string \<Rightarrow> int option \<Rightarrow> fr24_flight option list \<Rightarrow> fr24_flight list \<Rightarrow> bool \<times> fr24_flight list" where
  "scan_page dir dayEnd [] allUAFlights = (False, allUAFlights)"
| "scan_page dir dayEnd (entry # rest) allUAFlights =
     (case entry of
        None \<Rightarrow> scan_page dir dayEnd rest allUAFlights
      | Some fl \<Rightarrow>
          if fl_airline_iata fl \<noteq> Some ''UA'' then scan_page dir dayEnd rest allUAFlights
          else if past_day dir dayEnd fl then (True, allUAFlights)
          else scan_page dir dayEnd rest (allUAFlights @ [fl]))"

text \<open>\<open>sched.page?.total || 1\<close>\<close>

definition total_or_1 :: "int option \<Rightarrow> int" where
  "total_or_1 t = (if truthy t then the t else 1)"

text \<open>
  The \<open>while\<close> loop, from the values of \<open>allUAFlights\<close>, \<open>pageNum\<close>, \<open>totalPages\<close> and
  \<open>totalFetched\<close> at its head to their values at its exit, or to the error thrown by
  \<open>fetchOnePage\<close>.
\<close>

function agg_loop ::
  "upstream \<Rightarrow> string \<Rightarrow> string \<Rightarrow> int option \<Rightarrow> fr24_flight list \<Rightarrow> int \<Rightarrow> int \<Rightarrow> nat \<Rightarrow> world \<Rightarrow>
   (js_error + fr24_flight list \<times> int \<times> int \<times> nat) \<times> world" where
  "agg_loop up hub dir ts allUAFlights pageNum totalPages totalFetched w =
     (if pageNum \<le> totalPages \<and> pageNum \<le> MAX_PAGES then
        (case fetchOnePage up hub dir ts pageNum w of
           (Inl e, w1) \<Rightarrow> (Inl e, w1)
         | (Inr sched, w1) \<Rightarrow>
             (case sp_data sched of
                None \<Rightarrow> (Inr (allUAFlights, pageNum, total_or_1 (sp_page_total sched), totalFetched), w1)
              | Some [] \<Rightarrow> (Inr (allUAFlights, pageNum, total_or_1 (sp_page_total sched), totalFetched), w1)
              | Some (entry # rest) \<Rightarrow>
                  (case scan_page dir (map_option (\<lambda>t. t + 86400) ts) (entry # rest) allUAFlights of
                     (True, fls) \<Rightarrow>
                       (Inr (fls, pageNum, total_or_1 (sp_page_total sched),
                             totalFetched + length (entry # rest)), w1)
                   | (False, fls) \<Rightarrow>
                       agg_loop up hub dir ts fls (pageNum + 1) (total_or_1 (sp_page_total sched))
                         (totalFetched + length (entry # rest)) w1)))
      else (Inr (allUAFlights, pageNum, totalPages, totalFetched), w))"
  by pat_completeness auto
termination
  by (relation "measure (\<lambda>(up, hub, dir, ts, fls, pageNum, totalPages, totalFetched, w).
                  nat (MAX_PAGES + 1 - pageNum))") auto

declare agg_loop.simps [simp del]

subsection \<open>The handler\<close>

record query =
  q_hub :: "string option"
  q_dir :: "string option"
  q_timestamp :: "js_string option"
  q_page :: "js_string option"

datatype response_body =
    Error_text string
  | Error_message js_error
  | Data payload bool

record response =
  res_status :: nat
  res_s_maxage :: "int option"
  res_body :: response_body

text \<open>\<open>!x\<close> for a query parameter: it is missing or the empty string.\<close>

definition missing :: "'a list option \<Rightarrow> bool" where
  "missing x = (case x of None \<Rightarrow> True | Some s \<Rightarrow> s = [])"

text \<open>The \<open>catch\<close> clause of the handler.\<close>

definition on_error :: "js_error \<Rightarrow> response" where
  "on_error e =
     (if e = AbortError
      then \<lparr>res_status = 504, res_s_maxage = None, res_body = Error_text ''FR24 timeout''\<rparr>
      else \<lparr>res_status = 500, res_s_maxage = None, res_body = Error_message e\<rparr>)"

definition ok_response :: "int \<Rightarrow> payload \<Rightarrow> bool \<Rightarrow> response" where
  "ok_response ttl d cached =
     \<lparr>res_status = 200, res_s_maxage = Some (ttl div 1000), res_body = Data d cached\<rparr>"

text \<open>The branch \<open>if (page !== undefined)\<close>.\<close>

definition single_page ::
  "upstream \<Rightarrow> string \<Rightarrow> string \<Rightarrow> int option \<Rightarrow> int \<Rightarrow> js_string \<Rightarrow> world \<Rightarrow> response \<times> world" where
  "single_page up hub dir ts ttl page w =
     (let pageNum = total_or_1 (parseInt page);
          cacheKey = Sched_key hub dir ts pageNum
      in case world_cacheGet cacheKey w of
           (Some cached, w1) \<Rightarrow> (ok_response ttl (entry_data cached) True, w1)
         | (None, w1) \<Rightarrow>
             (case fetchOnePage up hub dir ts pageNum w1 of
                (Inl e, w2) \<Rightarrow> (on_error e, w2)
              | (Inr sched, w2) \<Rightarrow>
                  (ok_response ttl (Page_payload sched) False,
                   world_cacheSet cacheKey (Page_payload sched) ttl w2)))"

text \<open>Aggregation mode, the rest of the handler.\<close>

definition aggregation ::
  "upstream \<Rightarrow> string \<Rightarrow> string \<Rightarrow> int option \<Rightarrow> int \<Rightarrow> world \<Rightarrow> response \<times> world" where
  "aggregation up hub dir ts ttl w =
     (let aggKey = Agg_key hub dir ts
      in case world_cacheGet aggKey w of
           (Some cached, w1) \<Rightarrow> (ok_response ttl (entry_data cached) True, w1)
         | (None, w1) \<Rightarrow>
             (case agg_loop up hub dir ts [] 1 1 0 w1 of
                (Inl e, w2) \<Rightarrow> (on_error e, w2)
              | (Inr (allUAFlights, pageNum, totalPages, totalFetched), w2) \<Rightarrow>
                  (let result = Agg_payload
                         \<lparr>ar_flights = allUAFlights, ar_total = length allUAFlights,
                          ar_totalFetched = totalFetched,
                          ar_pagesScanned = min pageNum (min totalPages MAX_PAGES),
                          ar_totalPages = totalPages, ar_hub = hub, ar_dir = dir\<rparr>
                   in (ok_response ttl result False, world_cacheSet aggKey result ttl w2))))"

definition sched_handler :: "upstream \<Rightarrow> query \<Rightarrow> world \<Rightarrow> response \<times> world" where
  "sched_handler up q w =
     (let dir = (case q_dir q of None \<Rightarrow> ''departures'' | Some d \<Rightarrow> d)
      in if missing (q_hub q) \<or> missing (q_timestamp q)
         then (\<lparr>res_status = 400, res_s_maxage = None,
                res_body = Error_text ''Missing required params: hub, timestamp''\<rparr>, w)
         else if dir \<notin> set [''departures'', ''arrivals'']
         then (\<lparr>res_status = 400, res_s_maxage = None,
                res_body = Error_text ''dir must be departures or arrivals''\<rparr>, w)
         else
           (let hub = the (q_hub q);
                ts = parseInt (the (q_timestamp q));
                now = w_clock w div 1000;
                isOld = (case ts of None \<Rightarrow> False | Some t \<Rightarrow> now - t > 86400);
                ttl = (if isOld then 300000 else 60000)
            in case q_page q of
                 Some page \<Rightarrow> single_page up hub dir ts ttl page w
               | None \<Rightarrow> aggregation up hub dir ts ttl w))"

section \<open>Notions used in the statements\<close>

text \<open>The entry that \<open>cacheSet\<close>, respectively \<open>setCache\<close>, stores for its arguments.\<close>

definition sched_entry_of :: "'k \<times> 'v \<times> int \<times> int \<Rightarrow> 'k \<times> 'v cache_entry" where
  "sched_entry_of x = (case x of (k, d, ttl, now) \<Rightarrow>
      (k, \<lparr>entry_data = d, entry_expires = now + ttl, entry_time = now\<rparr>))"

definition fa_entry_of :: "'k \<times> 'v \<times> int \<Rightarrow> 'k \<times> 'v fa_entry" where
  "fa_entry_of x = (case x of (k, d, now) \<Rightarrow> (k, \<lparr>fa_data = d, fa_ts = now\<rparr>))"

text \<open>
  A Unicode scalar value is a code point up to U+10FFFF that is no surrogate. A string is
  well formed when none of its code points is a surrogate, that is when every surrogate
  code unit in it is part of a pair.
\<close>

definition scalar :: "nat \<Rightarrow> bool" where
  "scalar cp = (cp \<le> 0x10FFFF \<and> \<not> (0xD800 \<le> cp \<and> cp \<le> 0xDFFF))"

definition well_formed :: "js_string \<Rightarrow> bool" where
  "well_formed s = list_all scalar (StringToCodePoints s)"

text \<open>
  The uppercase mapping sends every scalar value to scalar values that it leaves
  unchanged.
\<close>

definition upper_stable :: "case_mapping \<Rightarrow> bool" where
  "upper_stable tbl =
     (\<forall>cp. scalar cp \<longrightarrow> (\<forall>u\<in>set (toUppercase tbl cp). scalar u \<and> toUppercase tbl u = [u]))"

text \<open>
  Two notions for the proofs about \<open>normalizeFlightNumber\<close>: a string without white space
  that \<open>toUpperCase\<close> leaves alone, and the two \<open>if\<close> statements of the function.
\<close>

definition clean :: "case_mapping \<Rightarrow> js_string \<Rightarrow> bool" where
  "clean tbl q = (list_all (\<lambda>c. \<not> isWhiteSpace c) q \<and> toUpperCase tbl q = q)"

definition prefix_rules :: "js_string \<Rightarrow> js_string" where
  "prefix_rules q =
     (let q = (if startsWith q (str ''UA'') \<and> \<not> startsWith q (str ''UAL'')
               then str ''UAL'' @ drop 2 q else q);
          q = (if digits_1_4 q then str ''UAL'' @ q else q)
      in q)"

text \<open>The array recorded for a client; a client never seen has none, which counts as empty.\<close>

definition ipLog_of :: "'ip rate_log \<Rightarrow> 'ip \<Rightarrow> int list" where
  "ipLog_of m ip = (case m ip of None \<Rightarrow> [] | Some l \<Rightarrow> l)"

text \<open>A candidate has a scheduled gate departure when the field is truthy; its value.\<close>

definition has_scheduled :: "string \<times> tracked_flight \<Rightarrow> bool" where
  "has_scheduled c = truthy (tf_gate_departure_scheduled (snd c))"

definition scheduled_of :: "string \<times> tracked_flight \<Rightarrow> int" where
  "scheduled_of c = the (tf_gate_departure_scheduled (snd c))"

text \<open>A decimal digit of a printed date, and the value of a string of decimal digits.\<close>

definition isDigit :: "char \<Rightarrow> bool" where
  "isDigit c = (let n = (of_char c :: nat) in 48 \<le> n \<and> n \<le> 57)"

definition decimal :: "string \<Rightarrow> int" where
  "decimal s = foldl (\<lambda>a c. a * 10 + (int (of_char c) - 48)) 0 s"

text \<open>
  The invariant of the limiter: the dispatch times so far are spaced, and none is later
  than \<open>lastFR24Request\<close>.
\<close>

definition limiter_ok :: "world \<Rightarrow> bool" where
  "limiter_ok w =
     (spaced MIN_REQUEST_INTERVAL (map fst (w_dispatched w)) \<and>
      list_all (\<lambda>d. fst d \<le> w_lastFR24Request w) (w_dispatched w))"

text \<open>No timer of the environment resumes a call before the requested delay has passed.\<close>

definition punctual :: "upstream \<Rightarrow> bool" where
  "punctual up = (\<forall>n url. 0 \<le> us_timer_drift (up n url))"

text \<open>
  An entry crosses the day boundary when it has a flight, the flight passes the carrier
  filter and its relevant time is present, not zero and at or after \<open>dayEnd\<close>: the
  entries at which the loop over a page breaks.
\<close>

definition crossing :: "string \<Rightarrow> int option \<Rightarrow> fr24_flight option \<Rightarrow> bool" where
  "crossing dir dayEnd entry =
     (case entry of
        None \<Rightarrow> False
      | Some fl \<Rightarrow> fl_airline_iata fl = Some ''UA'' \<and> past_day dir dayEnd fl)"

text \<open>The flights of a list of entries that pass the carrier filter.\<close>

fun ua_flights :: "fr24_flight option list \<Rightarrow> fr24_flight list" where
  "ua_flights [] = []"
| "ua_flights (None # rest) = ua_flights rest"
| "ua_flights (Some fl # rest) =
     (if fl_airline_iata fl = Some ''UA'' then fl # ua_flights rest else ua_flights rest)"

text \<open>The direction of a request: \<open>dir = 'departures'\<close> is the default of the destructuring.\<close>

definition query_dir :: "query \<Rightarrow> string" where
  "query_dir q = (case q_dir q of None \<Rightarrow> ''departures'' | Some d \<Rightarrow> d)"

section \<open>Example data\<close>

text \<open>
  Some entries of Unicode's uppercase mapping: U+00DF, the small letters U+00E0 to U+00FE
  of Latin-1 and the small letters U+10428 to U+1044F of the Deseret alphabet. The
  examples contain no other code point from U+0080 on that has an uppercase mapping.
\<close>

definition upper_fragment :: case_mapping where
  "upper_fragment cp =
     (if cp = 0xDF then [0x53, 0x53]
      else if 0xE0 \<le> cp \<and> cp \<le> 0xFE \<and> cp \<noteq> 0xF7 then [cp - 0x20]
      else if 0x10428 \<le> cp \<and> cp \<le> 0x1044F then [cp - 0x28]
      else [cp])"

text \<open>Keys 0 to \<open>n - 1\<close>, each stored with itself as value at time 0.\<close>

definition fill :: "nat \<Rightarrow> (nat \<times> nat \<times> int) list" where
  "fill n = map (\<lambda>i. (i, i, 0)) [0..<n]"

text \<open>A schedule cache and a flight-times cache with an old and a recent entry.\<close>

definition c_ex :: "(nat, string) sched_cache" where
  "c_ex = [(2, \<lparr>entry_data = ''old'', entry_expires = 10, entry_time = 0\<rparr>),
           (3, \<lparr>entry_data = ''new'', entry_expires = 90, entry_time = 30\<rparr>)]"

definition d_ex :: "(nat, string) fa_cache" where
  "d_ex = [(2, \<lparr>fa_data = ''old'', fa_ts = -120010\<rparr>),
           (3, \<lparr>fa_data = ''new'', fa_ts = 30\<rparr>)]"

text \<open>Scraped flights: a map of keys to activity logs, with and without candidates.\<close>

definition flight_at :: "string \<Rightarrow> int option \<Rightarrow> tracked_flight" where
  "flight_at name t = \<lparr>tf_ident = name, tf_gate_departure_scheduled = t\<rparr>"

definition flights_ex :: "(string \<times> tracked_flight list option) list" where
  "flights_ex =
     [(''k1'', None),
      (''k2'', Some [flight_at ''a'' None]),
      (''k3'', Some [flight_at ''b'' (Some 100), flight_at ''b2'' (Some 900)]),
      (''k4'', Some []),
      (''k5'', Some [flight_at ''c'' (Some 300)]),
      (''k6'', Some [flight_at ''d'' (Some 300)]),
      (''k7'', Some [flight_at ''e'' (Some 0)]),
      (''k8'', Some [flight_at ''f'' (Some 200)])]"

definition flights_unscheduled_ex :: "(string \<times> tracked_flight list option) list" where
  "flights_unscheduled_ex =
     [(''k1'', Some []), (''k2'', Some [flight_at ''a'' None]), (''k3'', Some [flight_at ''b'' (Some 0)])]"

definition flights_empty_ex :: "(string \<times> tracked_flight list option) list" where
  "flights_empty_ex = [(''k1'', None), (''k2'', Some [])]"

text \<open>
  Upstream pages for the day starting at 1704067200 (2024-01-01T00:00:00Z), which ends at
  1704153600, and an upstream that serves a list of pages, each request taking 100 ms
  and each timer resuming exactly after the requested delay.
\<close>

definition flight_ex :: "string \<Rightarrow> string \<Rightarrow> int option \<Rightarrow> fr24_flight" where
  "flight_ex name iata dep =
     \<lparr>fl_ident = name, fl_airline_iata = Some iata, fl_scheduled_departure = dep,
      fl_scheduled_arrival = None\<rparr>"

definition page1_ex :: sched_page where
  "page1_ex = \<lparr>sp_page_total = Some 3,
      sp_data = Some [Some (flight_ex ''UA1'' ''UA'' (Some 1704070000)),
                      Some (flight_ex ''AA7'' ''AA'' (Some 1704071000)), None]\<rparr>"

definition page2_ex :: sched_page where
  "page2_ex = \<lparr>sp_page_total = Some 3,
      sp_data = Some [Some (flight_ex ''UA2'' ''UA'' (Some 1704100000)),
                      Some (flight_ex ''UA9'' ''UA'' (Some 1704153600)),
                      Some (flight_ex ''UA3'' ''UA'' (Some 1704110000))]\<rparr>"

definition page2_late_ex :: sched_page where
  "page2_late_ex = \<lparr>sp_page_total = Some 3,
      sp_data = Some [Some (flight_ex ''UA9'' ''UA'' (Some 1704153600)),
                      Some (flight_ex ''UA3'' ''UA'' (Some 1704110000))]\<rparr>"

definition page2_other_ex :: sched_page where
  "page2_other_ex = \<lparr>sp_page_total = Some 3,
      sp_data = Some [Some (flight_ex ''UA2'' ''UA'' (Some 1704100000)),
                      Some (flight_ex ''AA9'' ''AA'' (Some 1704153600))]\<rparr>"

definition page3_ex :: sched_page where
  "page3_ex = \<lparr>sp_page_total = Some 3,
      sp_data = Some [Some (flight_ex ''UA4'' ''UA'' (Some 1704120000))]\<rparr>"

definition upstream_of :: "sched_page list \<Rightarrow> upstream" where
  "upstream_of pages n url =
     (case url of FR24_url hub dir ts page \<Rightarrow>
        \<lparr>us_timer_drift = 0, us_took = 100,
         us_result = (if 1 \<le> page \<and> page \<le> int (length pages)
                      then Http_response True 200 (Json (Some (pages ! nat (page - 1))))
                      else Http_response False 404 (Bad_json []))\<rparr>)"

text \<open>The same upstream with timers that resume one millisecond early.\<close>

definition upstream_early :: "sched_page list \<Rightarrow> upstream" where
  "upstream_early pages n url = (upstream_of pages n url)\<lparr>us_timer_drift := - 1\<rparr>"

text \<open>A state with an empty cache, and requests for hub ORD.\<close>

definition world_ex :: world where
  "world_ex = \<lparr>w_cache = [], w_lastFR24Request = 0, w_clock = 1704200000000, w_lookups = [],
               w_dispatched = []\<rparr>"

definition query_ex :: "string \<Rightarrow> query" where
  "query_ex timestamp = \<lparr>q_hub = Some ''ORD'', q_dir = Some ''departures'',
                 q_timestamp = Some (str timestamp), q_page = None\<rparr>"

definition url_ex :: "int \<Rightarrow> fr24_url" where
  "url_ex page = FR24_url ''ORD'' ''departures'' (Some 1704067200) page"

section \<open>Properties of the caches\<close>

subsection \<open>Writing\<close>

lemma Map_ok_set: "Map_ok m \<Longrightarrow> Map_ok (Map_set m k v)"
  by (simp add: Map_ok_def Map_set_def distinct_update)

lemma Map_ok_delete: "Map_ok m \<Longrightarrow> Map_ok (Map_delete m k)"
  by (simp add: Map_ok_def Map_delete_def distinct_delete)

lemma Map_delete_first_tl: "Map_ok m \<Longrightarrow> Map_delete_first m = tl m"
  by (cases m) (auto simp: Map_ok_def Map_delete_first_def Map_delete_def)

lemma Map_ok_delete_first: "Map_ok m \<Longrightarrow> Map_ok (Map_delete_first m)"
  by (simp add: Map_delete_first_tl Map_ok_def distinct_tl map_tl)

lemma Map_size_set_le: "Map_size (Map_set m k v) \<le> Suc (Map_size m)"
  by (induction m) (auto simp: Map_size_def Map_set_def)

lemma Map_set_fresh: "k \<notin> set (Map_keys m) \<Longrightarrow> Map_set m k v = m @ [(k, v)]"
  by (induction m) (auto simp: Map_set_def Map_keys_def)

lemma Map_size_delete_first: "Map_size (Map_delete_first m) \<le> Map_size m - 1"
proof (cases m)
  case Nil
  then show ?thesis by (simp add: Map_delete_first_def Map_size_def)
next
  case (Cons p ps)
  obtain k v where p: "p = (k, v)" by (cases p)
  have "length (AList.delete k ps) \<le> length ps" by (rule length_delete_le)
  with Cons p show ?thesis
    by (simp add: Map_delete_first_def Map_size_def Map_delete_def)
qed

text \<open>The schedule cache never exceeds its bound.\<close>

lemma cacheSet_size:
  "Map_size c \<le> MAX_CACHE_SIZE \<Longrightarrow> Map_size (cacheSet c k d ttl now) \<le> MAX_CACHE_SIZE"
proof -
  assume le: "Map_size c \<le> MAX_CACHE_SIZE"
  let ?e = "\<lparr>entry_data = d, entry_expires = now + ttl, entry_time = now\<rparr>"
  show ?thesis
  proof (cases "Map_size c \<ge> MAX_CACHE_SIZE")
    case True
    have "Map_size (Map_set (Map_delete_first c) k ?e) \<le> Suc (Map_size (Map_delete_first c))"
      by (rule Map_size_set_le)
    also have "\<dots> \<le> Suc (Map_size c - 1)"
      using Map_size_delete_first [of c] by simp
    also have "\<dots> \<le> MAX_CACHE_SIZE"
      using le True by (simp add: MAX_CACHE_SIZE_def)
    finally show ?thesis using True by (simp add: cacheSet_def)
  next
    case False
    have "Map_size (Map_set c k ?e) \<le> Suc (Map_size c)" by (rule Map_size_set_le)
    with False show ?thesis by (simp add: cacheSet_def)
  qed
qed

lemma cacheSet_all_size:
  "Map_size c \<le> MAX_CACHE_SIZE \<Longrightarrow> Map_size (cacheSet_all c xs) \<le> MAX_CACHE_SIZE"
  by (induction c xs rule: cacheSet_all.induct) (auto simp: cacheSet_size)

lemma cacheSet_Map_ok: "Map_ok c \<Longrightarrow> Map_ok (cacheSet c k d ttl now)"
  by (simp add: cacheSet_def Map_ok_set Map_ok_delete_first)

lemma cacheSet_fresh:
  "Map_ok c \<Longrightarrow> k \<notin> set (Map_keys c) \<Longrightarrow>
   cacheSet c k d ttl now =
     (if Map_size c \<ge> MAX_CACHE_SIZE then tl c else c)
       @ [(k, \<lparr>entry_data = d, entry_expires = now + ttl, entry_time = now\<rparr>)]"
proof -
  assume ok: "Map_ok c" and fresh: "k \<notin> set (Map_keys c)"
  have "k \<notin> set (Map_keys (tl c))"
    using fresh by (cases c) (auto simp: Map_keys_def)
  with ok fresh show ?thesis
    by (simp add: cacheSet_def Map_delete_first_tl Map_set_fresh)
qed

lemma setCache_fresh:
  "Map_ok c \<Longrightarrow> k \<notin> set (Map_keys c) \<Longrightarrow>
   setCache c k d now =
     (if Map_size c > 200 then tl c else c) @ [(k, \<lparr>fa_data = d, fa_ts = now\<rparr>)]"
proof -
  assume ok: "Map_ok c" and fresh: "k \<notin> set (Map_keys c)"
  have "k \<notin> set (Map_keys (tl c))"
    using fresh by (cases c) (auto simp: Map_keys_def)
  with ok fresh show ?thesis
    by (simp add: setCache_def Map_delete_first_tl Map_set_fresh)
qed

lemma setCache_all_fresh:
  "Map_ok c \<Longrightarrow> distinct (map fst xs) \<Longrightarrow> set (map fst xs) \<inter> set (Map_keys c) = {} \<Longrightarrow>
   Map_size c + length xs \<le> 201 \<Longrightarrow>
   setCache_all c xs = c @ map fa_entry_of xs"
proof (induction c xs rule: setCache_all.induct)
  case (1 cache)
  then show ?case by simp
next
  case (2 cache key d now rest)
  let ?c = "setCache cache key d now"
  have fresh: "key \<notin> set (Map_keys cache)" using 2(4) by auto
  have small: "\<not> Map_size cache > 200" using 2(5) by simp
  have step: "?c = cache @ [(key, \<lparr>fa_data = d, fa_ts = now\<rparr>)]"
    using setCache_fresh [OF 2(2) fresh] small by simp
  have ok: "Map_ok ?c" using 2(2) fresh by (simp add: step Map_ok_def Map_keys_def)
  have dis: "distinct (map fst rest)" using 2(3) by simp
  have disj: "set (map fst rest) \<inter> set (Map_keys ?c) = {}"
    using 2(3) 2(4) by (auto simp: step Map_keys_def)
  have sz: "Map_size ?c + length rest \<le> 201" using 2(5) by (simp add: step Map_size_def)
  show ?case using "2.IH" [OF ok dis disj sz] by (simp add: step fa_entry_of_def)
qed

lemma cacheSet_all_fresh_small:
  "Map_ok c \<Longrightarrow> distinct (map fst xs) \<Longrightarrow> set (map fst xs) \<inter> set (Map_keys c) = {} \<Longrightarrow>
   Map_size c + length xs \<le> MAX_CACHE_SIZE \<Longrightarrow>
   cacheSet_all c xs = c @ map sched_entry_of xs"
proof (induction c xs rule: cacheSet_all.induct)
  case (1 cache)
  then show ?case by simp
next
  case (2 cache key d ttl now rest)
  let ?c = "cacheSet cache key d ttl now"
  have fresh: "key \<notin> set (Map_keys cache)" using 2(4) by auto
  have small: "\<not> Map_size cache \<ge> MAX_CACHE_SIZE" using 2(5) by simp
  have step: "?c = cache @ [sched_entry_of (key, d, ttl, now)]"
    using cacheSet_fresh [OF 2(2) fresh] small by (simp add: sched_entry_of_def)
  have ok: "Map_ok ?c" using 2(2) by (rule cacheSet_Map_ok)
  have dis: "distinct (map fst rest)" using 2(3) by simp
  have disj: "set (map fst rest) \<inter> set (Map_keys ?c) = {}"
    using 2(3) 2(4) by (auto simp: step Map_keys_def sched_entry_of_def)
  have sz: "Map_size ?c + length rest \<le> MAX_CACHE_SIZE" using 2(5) by (simp add: step Map_size_def)
  show ?case using "2.IH" [OF ok dis disj sz] by (simp add: step)
qed

text \<open>After MAX_CACHE_SIZE + 1 distinct keys the schedule cache has dropped the first.\<close>

lemma cacheSet_all_overflow:
  assumes "distinct (map fst (x # xs))" and "length xs = MAX_CACHE_SIZE - 1"
    and "fst y \<notin> set (map fst (x # xs))"
  shows "cacheSet_all [] (x # xs @ [y]) = map sched_entry_of (xs @ [y])"
proof -
  obtain k d ttl now where y: "y = (k, d, ttl, now)" by (cases y) auto
  have full: "cacheSet_all [] (x # xs) = map sched_entry_of (x # xs)"
    using cacheSet_all_fresh_small [of "[]" "x # xs"] assms(1,2)
    by (simp add: Map_ok_def Map_keys_def Map_size_def MAX_CACHE_SIZE_def)
  have app: "cacheSet_all c (as @ bs) = cacheSet_all (cacheSet_all c as) bs" for c :: "('a, 'b) sched_cache" and as bs
    by (induction c as rule: cacheSet_all.induct) auto
  have keys: "map fst (map sched_entry_of (x # xs)) = map fst (x # xs)"
    by (auto simp: sched_entry_of_def split: prod.splits)
  have ok: "Map_ok (map sched_entry_of (x # xs))"
    unfolding Map_ok_def keys using assms(1) .
  have fresh: "k \<notin> set (Map_keys (map sched_entry_of (x # xs)))"
    unfolding Map_keys_def keys using assms(3) y by simp
  have "cacheSet_all [] (x # xs @ [y]) = cacheSet_all (cacheSet_all [] (x # xs)) [y]"
    using app [of "[]" "x # xs" "[y]"] by simp
  also have "\<dots> = cacheSet (map sched_entry_of (x # xs)) k d ttl now"
    by (simp add: full y)
  also have "\<dots> = map sched_entry_of xs @ [sched_entry_of y]"
    using cacheSet_fresh [OF ok fresh] assms(2)
    by (simp add: Map_size_def MAX_CACHE_SIZE_def sched_entry_of_def y)
  finally show ?thesis by simp
qed

text \<open>
  The schedule cache after \<open>MAX_CACHE_SIZE\<close> + 1 distinct keys: the first key is not
  retrievable, and every later key whose entry has not expired is.
\<close>

lemma cacheGet_after_overflow:
  assumes "distinct (map fst (x # xs))" and "length xs = MAX_CACHE_SIZE - 1"
    and "fst y \<notin> set (map fst (x # xs))"
  shows "fst (cacheGet (cacheSet_all [] (x # xs @ [y])) (fst x) now) = None \<and>
         list_all (\<lambda>(k, d, ttl, t). now \<le> t + ttl \<longrightarrow>
             fst (cacheGet (cacheSet_all [] (x # xs @ [y])) k now)
               = Some \<lparr>entry_data = d, entry_expires = t + ttl, entry_time = t\<rparr>) (xs @ [y])"
proof -
  define c where "c = map sched_entry_of (xs @ [y])"
  have c: "cacheSet_all [] (x # xs @ [y]) = c"
    unfolding c_def using assms by (rule cacheSet_all_overflow)
  have keys: "map fst c = map fst (xs @ [y])"
    unfolding c_def by (auto simp: sched_entry_of_def split: prod.splits)
  have dis: "distinct (map fst c)" unfolding keys using assms(1,3) by auto
  have nk: "fst x \<notin> set (map fst c)" unfolding keys using assms(1,3) by auto
  have "map_of c (fst x) = None"
  proof (cases "map_of c (fst x)")
    case None
    then show ?thesis .
  next
    case (Some v)
    then have "(fst x, v) \<in> set c" by (rule map_of_SomeD)
    then have "fst x \<in> set (map fst c)" by force
    with nk show ?thesis by contradiction
  qed
  then have first: "fst (cacheGet c (fst x) now) = None"
    by (simp add: cacheGet_def Map_get_def)
  have later: "fst (cacheGet c k now) = Some \<lparr>entry_data = d, entry_expires = t + ttl, entry_time = t\<rparr>"
    if "(k, d, ttl, t) \<in> set (xs @ [y])" and "now \<le> t + ttl" for k d ttl t
  proof -
    have "sched_entry_of (k, d, ttl, t) \<in> set c"
      unfolding c_def using that(1) by (simp only: set_map image_eqI)
    then have "(k, \<lparr>entry_data = d, entry_expires = t + ttl, entry_time = t\<rparr>) \<in> set c"
      by (simp add: sched_entry_of_def)
    with dis have "map_of c k = Some \<lparr>entry_data = d, entry_expires = t + ttl, entry_time = t\<rparr>"
      by (rule map_of_is_SomeI)
    then show ?thesis using that(2) by (simp add: cacheGet_def Map_get_def)
  qed
  show ?thesis unfolding c using first later by (auto simp: list_all_iff)
qed

text \<open>
  Claim C1, on the flight-times cache: \<open>setCache\<close> evicts only when the size is above 200,
  so after 201 distinct keys have been inserted into the empty cache, with no read and
  nothing expired, it holds 201 entries, more than \<open>MAX_CACHE_SIZE\<close>, and the key inserted
  first is still retrievable. (The schedule cache keeps the bound, drops the first key and
  keeps the later ones: \<open>cacheSet_all_size\<close>, \<open>cacheSet_all_overflow\<close> and
  \<open>cacheGet_after_overflow\<close>.)
\<close>

theorem setCache_holds_201:
  "Map_size (setCache_all [] (fill 201)) = 201 \<and>
   \<not> Map_size (setCache_all [] (fill 201)) \<le> MAX_CACHE_SIZE \<and>
   fst (getCached (setCache_all [] (fill 201)) 0 0) = Some 0"
proof -
  have keys: "map fst (fill 201) = [0..<201]"
    by (simp add: fill_def comp_def map_idI)
  have "setCache_all [] (fill 201) = [] @ map fa_entry_of (fill 201)"
    by (rule setCache_all_fresh) (simp_all add: keys Map_ok_def Map_keys_def Map_size_def, simp add: fill_def)
  then have eq: "setCache_all [] (fill 201) = map fa_entry_of (fill 201)" by simp
  have hd: "fill 201 = (0, 0, 0) # map (\<lambda>i. (i, i, 0)) [1..<201]"
    by (simp add: fill_def upt_conv_Cons)
  have len: "length (fill 201) = 201" by (simp add: fill_def)
  show ?thesis
    unfolding eq Map_size_def getCached_def Map_get_def
    apply (simp add: len MAX_CACHE_SIZE_def)
    apply (simp add: hd fa_entry_of_def CACHE_TTL_MS_def)
    done
qed

subsection \<open>Reading\<close>

lemma Map_get_delete_same: "Map_get (Map_delete m k) k = None"
  by (simp add: Map_get_def Map_delete_def delete_conv')

lemma cacheGet_unknown: "Map_get c k = None \<Longrightarrow> cacheGet c k now = (None, c)"
  by (simp add: cacheGet_def)

lemma cacheGet_expired:
  "Map_get c k = Some e \<Longrightarrow> now > entry_expires e \<Longrightarrow> cacheGet c k now = (None, Map_delete c k)"
  by (simp add: cacheGet_def)

lemma cacheGet_live:
  "Map_get c k = Some e \<Longrightarrow> \<not> now > entry_expires e \<Longrightarrow> cacheGet c k now = (Some e, c)"
  by (simp add: cacheGet_def)

lemma getCached_unknown: "Map_get c k = None \<Longrightarrow> getCached c k now = (None, c)"
  by (simp add: getCached_def)

lemma getCached_expired:
  "Map_get c k = Some e \<Longrightarrow> now > fa_ts e + CACHE_TTL_MS \<Longrightarrow> getCached c k now = (None, Map_delete c k)"
  by (simp add: getCached_def)

lemma getCached_live:
  "Map_get c k = Some e \<Longrightarrow> \<not> now > fa_ts e + CACHE_TTL_MS \<Longrightarrow> getCached c k now = (Some (fa_data e), c)"
  by (simp add: getCached_def)

text \<open>
  Claim C5, for the schedule cache \<open>c\<close> and the flight-times cache \<open>d\<close>: a read of an
  unknown key is absent and changes nothing; a read of an entry whose expiry has passed
  (\<open>expires\<close>, respectively \<open>ts + CACHE_TTL_MS\<close>) is absent and deletes the entry, so that
  the key is unknown afterwards and a repeated read, at any time, is absent too; a read of
  an entry that has not expired returns what is stored and leaves the cache as it was.
\<close>

theorem cache_get_lazy_expiry:
  fixes c :: "('k, 'v) sched_cache" and d :: "('k, 'v) fa_cache"
  shows
  "(Map_get c k1 = None \<longrightarrow> cacheGet c k1 now = (None, c)) \<and>
   (Map_get c k2 = Some e2 \<and> now > entry_expires e2 \<longrightarrow>
      cacheGet c k2 now = (None, Map_delete c k2) \<and>
      Map_get (Map_delete c k2) k2 = None \<and>
      fst (cacheGet (snd (cacheGet c k2 now)) k2 later) = None) \<and>
   (Map_get c k3 = Some e3 \<and> \<not> now > entry_expires e3 \<longrightarrow> cacheGet c k3 now = (Some e3, c)) \<and>
   (Map_get d k1 = None \<longrightarrow> getCached d k1 now = (None, d)) \<and>
   (Map_get d k2 = Some f2 \<and> now > fa_ts f2 + CACHE_TTL_MS \<longrightarrow>
      getCached d k2 now = (None, Map_delete d k2) \<and>
      Map_get (Map_delete d k2) k2 = None \<and>
      fst (getCached (snd (getCached d k2 now)) k2 later) = None) \<and>
   (Map_get d k3 = Some f3 \<and> \<not> now > fa_ts f3 + CACHE_TTL_MS \<longrightarrow>
      getCached d k3 now = (Some (fa_data f3), d))"
  by (simp add: cacheGet_unknown cacheGet_expired cacheGet_live getCached_unknown
      getCached_expired getCached_live Map_get_delete_same)

theorem cache_get_lazy_expiry_witness:
  "Map_get c_ex 1 = None \<and> cacheGet c_ex 1 50 = (None, c_ex) \<and>
   Map_get c_ex 2 = Some \<lparr>entry_data = ''old'', entry_expires = 10, entry_time = 0\<rparr> \<and>
   cacheGet c_ex 2 50 = (None, Map_delete c_ex 2) \<and>
   fst (cacheGet (snd (cacheGet c_ex 2 50)) 2 60) = None \<and>
   cacheGet c_ex 3 50 = (Some \<lparr>entry_data = ''new'', entry_expires = 90, entry_time = 30\<rparr>, c_ex) \<and>
   getCached d_ex 1 50 = (None, d_ex) \<and>
   getCached d_ex 2 50 = (None, Map_delete d_ex 2) \<and>
   fst (getCached (snd (getCached d_ex 2 50)) 2 60) = None \<and>
   getCached d_ex 3 50 = (Some ''new'', d_ex)"
  using cache_get_lazy_expiry [of c_ex 1 50 2 "\<lparr>entry_data = ''old'', entry_expires = 10, entry_time = 0\<rparr>" 60
      3 "\<lparr>entry_data = ''new'', entry_expires = 90, entry_time = 30\<rparr>" d_ex
      "\<lparr>fa_data = ''old'', fa_ts = -120010\<rparr>" "\<lparr>fa_data = ''new'', fa_ts = 30\<rparr>"]
  by (simp add: c_ex_def d_ex_def Map_get_def CACHE_TTL_MS_def cacheGet_def getCached_def Map_delete_def)

section \<open>Properties of \<open>normalizeFlightNumber\<close>\<close>

lemma str_eq_Nil: "(str s = []) = (s = [])"
  by (simp add: str_def)

lemma str_UA: "str ''UA'' = [0x55, 0x41]"
  by (simp add: str_def)

lemma str_UAL: "str ''UAL'' = [0x55, 0x41, 0x4C]"
  by (simp add: str_def)

lemma StringToCodePoints_not_lead:
  "\<not> isLeadingSurrogate u \<Longrightarrow> StringToCodePoints (u # r) = unat u # StringToCodePoints r"
  by (cases r) simp_all

lemma StringToCodePoints_snoc:
  "\<not> isTrailingSurrogate x \<Longrightarrow> StringToCodePoints (ys @ [x]) = StringToCodePoints ys @ [unat x]"
  by (induction ys rule: StringToCodePoints.induct) simp_all

lemma isWhiteSpace_not_surrogate:
  "isWhiteSpace u \<Longrightarrow> \<not> isLeadingSurrogate u \<and> \<not> isTrailingSurrogate u"
  by (auto simp: isWhiteSpace_def isLeadingSurrogate_def isTrailingSurrogate_def Let_def)

lemma well_formed_dropWhile: "well_formed s \<Longrightarrow> well_formed (dropWhile isWhiteSpace s)"
  by (induction s) (auto simp: well_formed_def StringToCodePoints_not_lead isWhiteSpace_not_surrogate)

lemma well_formed_rev_dropWhile:
  "well_formed (rev xs) \<Longrightarrow> well_formed (rev (dropWhile isWhiteSpace xs))"
  by (induction xs) (auto simp: well_formed_def StringToCodePoints_snoc isWhiteSpace_not_surrogate)

lemma well_formed_trim: "well_formed s \<Longrightarrow> well_formed (trim s)"
  unfolding trim_def
  using well_formed_dropWhile [of s] well_formed_rev_dropWhile [of "rev (dropWhile isWhiteSpace s)"]
  by simp

lemma unat_of_nat16: "n \<le> 0xFFFF \<Longrightarrow> unat (of_nat n :: 16 word) = n"
  by (simp add: unat_of_nat)

lemma UTF16Encode_bmp:
  "scalar c \<Longrightarrow> c \<le> 0xFFFF \<Longrightarrow>
     UTF16EncodeCodePoint c = [of_nat c] \<and> unat (of_nat c :: 16 word) = c \<and>
     \<not> isLeadingSurrogate (of_nat c) \<and> \<not> isTrailingSurrogate (of_nat c)"
  by (auto simp: UTF16EncodeCodePoint_def unat_of_nat16 isLeadingSurrogate_def
      isTrailingSurrogate_def scalar_def)

lemma UTF16Encode_pair:
  assumes "scalar c" and "\<not> c \<le> 0xFFFF"
  shows "\<exists>h l. UTF16EncodeCodePoint c = [h, l] \<and> isLeadingSurrogate h \<and> isTrailingSurrogate l \<and>
           UTF16SurrogatePairToCodePoint h l = c"
proof -
  define d where "d = c - 0x10000"
  have c: "c = d + 0x10000" and d: "d \<le> 0xFFFFF"
    using assms by (simp_all add: d_def scalar_def)
  have hi: "d div 0x400 \<le> 0x3FF" using d by simp
  have lo: "d mod 0x400 \<le> 0x3FF" by simp
  have uh: "unat (of_nat (d div 0x400 + 0xD800) :: 16 word) = d div 0x400 + 0xD800"
    using hi by (intro unat_of_nat16) simp
  have ul: "unat (of_nat (d mod 0x400 + 0xDC00) :: 16 word) = d mod 0x400 + 0xDC00"
    using lo by (intro unat_of_nat16) simp
  have e: "UTF16EncodeCodePoint c = [of_nat (d div 0x400 + 0xD800), of_nat (d mod 0x400 + 0xDC00)]"
    using assms by (simp add: UTF16EncodeCodePoint_def d_def)
  have "isLeadingSurrogate (of_nat (d div 0x400 + 0xD800))"
    unfolding isLeadingSurrogate_def uh using hi by simp
  moreover have "isTrailingSurrogate (of_nat (d mod 0x400 + 0xDC00))"
    unfolding isTrailingSurrogate_def ul using lo by simp
  moreover have "UTF16SurrogatePairToCodePoint (of_nat (d div 0x400 + 0xD800))
      (of_nat (d mod 0x400 + 0xDC00)) = c"
    unfolding UTF16SurrogatePairToCodePoint_def uh ul c by simp
  ultimately show ?thesis using e by blast
qed

lemma StringToCodePoints_encode:
  "scalar c \<Longrightarrow> StringToCodePoints (UTF16EncodeCodePoint c @ r) = c # StringToCodePoints r"
proof (cases "c \<le> 0xFFFF")
  case True
  assume "scalar c"
  from UTF16Encode_bmp [OF this True] show ?thesis
    by (simp add: StringToCodePoints_not_lead)
next
  case False
  assume "scalar c"
  from UTF16Encode_pair [OF this False] show ?thesis by auto
qed

lemma StringToCodePoints_CodePointsToString:
  "list_all scalar cs \<Longrightarrow> StringToCodePoints (CodePointsToString cs) = cs"
  unfolding CodePointsToString_def
  by (induction cs) (simp_all add: StringToCodePoints_encode)

lemma filter_encode:
  "scalar c \<Longrightarrow> filter (\<lambda>u. \<not> isWhiteSpace u) (UTF16EncodeCodePoint c) = [] \<or>
     filter (\<lambda>u. \<not> isWhiteSpace u) (UTF16EncodeCodePoint c) = UTF16EncodeCodePoint c"
proof (cases "c \<le> 0xFFFF")
  case True
  then show ?thesis by (simp add: UTF16EncodeCodePoint_def)
next
  case False
  assume "scalar c"
  from UTF16Encode_pair [OF this False] obtain h l where e: "UTF16EncodeCodePoint c = [h, l]"
    and h: "isLeadingSurrogate h" and l: "isTrailingSurrogate l" by blast
  have "\<not> isWhiteSpace h" using h isWhiteSpace_not_surrogate [of h] by blast
  moreover have "\<not> isWhiteSpace l" using l isWhiteSpace_not_surrogate [of l] by blast
  ultimately show ?thesis by (simp add: e)
qed

lemma filter_CodePointsToString:
  "list_all scalar cs \<Longrightarrow>
     \<exists>cs'. set cs' \<subseteq> set cs \<and>
       filter (\<lambda>u. \<not> isWhiteSpace u) (CodePointsToString cs) = CodePointsToString cs'"
proof (induction cs)
  case Nil
  show ?case by (intro exI [of _ "[]"]) (simp add: CodePointsToString_def)
next
  case (Cons c cs)
  then obtain cs' where sub: "set cs' \<subseteq> set cs"
    and f: "filter (\<lambda>u. \<not> isWhiteSpace u) (CodePointsToString cs) = CodePointsToString cs'"
    by auto
  from Cons.prems have "scalar c" by simp
  from filter_encode [OF this] show ?case
  proof
    assume "filter (\<lambda>u. \<not> isWhiteSpace u) (UTF16EncodeCodePoint c) = []"
    then have "filter (\<lambda>u. \<not> isWhiteSpace u) (CodePointsToString (c # cs)) = CodePointsToString cs'"
      using f by (simp add: CodePointsToString_def)
    then show ?thesis using sub by (intro exI [of _ cs']) auto
  next
    assume "filter (\<lambda>u. \<not> isWhiteSpace u) (UTF16EncodeCodePoint c) = UTF16EncodeCodePoint c"
    then have "filter (\<lambda>u. \<not> isWhiteSpace u) (CodePointsToString (c # cs)) =
        CodePointsToString (c # cs')"
      using f by (simp add: CodePointsToString_def)
    then show ?thesis using sub by (intro exI [of _ "c # cs'"]) auto
  qed
qed

lemma trim_no_space: "list_all (\<lambda>c. \<not> isWhiteSpace c) q \<Longrightarrow> trim q = q"
proof -
  assume a: "list_all (\<lambda>c. \<not> isWhiteSpace c) q"
  have d: "dropWhile isWhiteSpace xs = xs" if "list_all (\<lambda>c. \<not> isWhiteSpace c) xs" for xs
    using that by (cases xs) auto
  have "list_all (\<lambda>c. \<not> isWhiteSpace c) (rev q)" using a by (simp add: list_all_iff)
  then show ?thesis using a by (simp add: trim_def d)
qed

lemma clean_fixed: "clean tbl q \<Longrightarrow> replace_spaces (toUpperCase tbl (trim q)) = q"
  by (simp add: clean_def trim_no_space replace_spaces_def list_all_iff)

lemma clean_cleaned:
  assumes "\<forall>c\<in>set (StringToCodePoints (trim s)).
             \<forall>e\<in>set (toUppercase tbl c). scalar e \<and> toUppercase tbl e = [e]"
  shows "clean tbl (replace_spaces (toUpperCase tbl (trim s)))"
proof -
  define c1 where "c1 = concat (map (toUppercase tbl) (StringToCodePoints (trim s)))"
  have c1: "\<forall>e\<in>set c1. scalar e \<and> toUppercase tbl e = [e]"
    using assms by (auto simp: c1_def)
  then have "list_all scalar c1" by (simp add: list_all_iff)
  from filter_CodePointsToString [OF this] obtain c2 where sub: "set c2 \<subseteq> set c1"
    and f: "filter (\<lambda>u. \<not> isWhiteSpace u) (CodePointsToString c1) = CodePointsToString c2"
    by blast
  have c2: "\<forall>e\<in>set c2. scalar e \<and> toUppercase tbl e = [e]" using c1 sub by blast
  have q: "replace_spaces (toUpperCase tbl (trim s)) = CodePointsToString c2"
    by (simp add: replace_spaces_def toUpperCase_def f c1_def [symmetric])
  have "StringToCodePoints (CodePointsToString c2) = c2"
    using c2 by (simp add: StringToCodePoints_CodePointsToString list_all_iff)
  moreover have "concat (map (toUppercase tbl) c2) = c2" using c2 by (induction c2) auto
  ultimately have up: "toUpperCase tbl (CodePointsToString c2) = CodePointsToString c2"
    by (simp add: toUpperCase_def)
  have "list_all (\<lambda>c. \<not> isWhiteSpace c) (CodePointsToString c2)"
    unfolding q [symmetric] by (simp add: replace_spaces_def list_all_iff)
  then show ?thesis unfolding q using up by (simp add: clean_def)
qed

lemma toUpperCase_UAL: "toUpperCase tbl (str ''UAL'' @ q) = str ''UAL'' @ toUpperCase tbl q"
  by (simp add: str_UAL toUpperCase_def StringToCodePoints_not_lead isLeadingSurrogate_def
      toUppercase_def CodePointsToString_def UTF16EncodeCodePoint_def)

lemma toUpperCase_UA: "toUpperCase tbl (0x55 # 0x41 # r) = 0x55 # 0x41 # toUpperCase tbl r"
  by (simp add: toUpperCase_def StringToCodePoints_not_lead isLeadingSurrogate_def
      toUppercase_def CodePointsToString_def UTF16EncodeCodePoint_def)

lemma clean_UAL: "clean tbl q \<Longrightarrow> clean tbl (str ''UAL'' @ q)"
  by (simp add: clean_def toUpperCase_UAL) (simp add: str_UAL isWhiteSpace_def)

lemma startsWith_UA: "startsWith q (str ''UA'') \<Longrightarrow> \<exists>r. q = 0x55 # 0x41 # r"
  by (cases q; cases "tl q") (auto simp: startsWith_def str_UA)

lemma clean_drop2: "clean tbl q \<Longrightarrow> startsWith q (str ''UA'') \<Longrightarrow> clean tbl (drop 2 q)"
  using startsWith_UA [of q] by (auto simp: clean_def toUpperCase_UA)

lemma not_digits_U: "\<not> digits_1_4 (0x55 # r)"
  by (simp add: digits_1_4_def isDecimalDigit_def)

lemma startsWith_UAL: "startsWith (0x55 # 0x41 # 0x4C # r) [0x55, 0x41, 0x4C]"
  by (simp add: startsWith_def)

lemma normalizeFlightNumber_string:
  "normalizeFlightNumber tbl (RStr s) =
     Inr (prefix_rules (replace_spaces (toUpperCase tbl (trim s))))"
  by (simp add: normalizeFlightNumber_def prefix_rules_def Let_def)

lemma prefix_rules_idem: "prefix_rules (prefix_rules q) = prefix_rules q"
proof (cases "startsWith q (str ''UA'') \<and> \<not> startsWith q (str ''UAL'')")
  case True
  then have "prefix_rules q = 0x55 # 0x41 # 0x4C # drop 2 q"
    by (simp add: prefix_rules_def Let_def str_UA str_UAL not_digits_U)
  then show ?thesis
    by (simp add: prefix_rules_def [of "0x55 # 0x41 # 0x4C # drop 2 q"] Let_def str_UA str_UAL
        not_digits_U startsWith_UAL)
next
  case False
  show ?thesis
  proof (cases "digits_1_4 q")
    case True
    with False have "prefix_rules q = 0x55 # 0x41 # 0x4C # q"
      by (auto simp: prefix_rules_def Let_def str_UAL)
    then show ?thesis
      by (simp add: prefix_rules_def [of "0x55 # 0x41 # 0x4C # q"] Let_def str_UA str_UAL
          not_digits_U startsWith_UAL)
  next
    case nd: False
    with False have "prefix_rules q = q" by (auto simp: prefix_rules_def Let_def)
    then show ?thesis by simp
  qed
qed

lemma clean_prefix_rules: "clean tbl q \<Longrightarrow> clean tbl (prefix_rules q)"
proof -
  assume c: "clean tbl q"
  show ?thesis
  proof (cases "startsWith q (str ''UA'') \<and> \<not> startsWith q (str ''UAL'')")
    case True
    then have "prefix_rules q = str ''UAL'' @ drop 2 q"
      by (simp add: prefix_rules_def Let_def str_UAL not_digits_U)
    then show ?thesis using clean_UAL [OF clean_drop2 [OF c]] True by simp
  next
    case False
    then have "prefix_rules q = (if digits_1_4 q then str ''UAL'' @ q else q)"
      by (auto simp: prefix_rules_def Let_def)
    then show ?thesis using c clean_UAL [OF c] by simp
  qed
qed

lemma normalizeFlightNumber_clean:
  assumes "clean tbl (replace_spaces (toUpperCase tbl (trim s)))"
  shows "\<exists>q. normalizeFlightNumber tbl (RStr s) = Inr q \<and> normalizeFlightNumber tbl (RStr q) = Inr q"
proof -
  let ?q = "prefix_rules (replace_spaces (toUpperCase tbl (trim s)))"
  have c: "clean tbl ?q" using assms by (rule clean_prefix_rules)
  have "normalizeFlightNumber tbl (RStr ?q) = Inr (prefix_rules ?q)"
    by (simp add: normalizeFlightNumber_string clean_fixed [OF c])
  then show ?thesis by (simp add: normalizeFlightNumber_string prefix_rules_idem)
qed

lemma StringToCodePoints_ascii:
  "list_all (\<lambda>u. unat u < 0x80) s \<Longrightarrow> StringToCodePoints s = map unat s"
  by (induction s) (simp_all add: StringToCodePoints_not_lead isLeadingSurrogate_def)

lemma set_trim: "set (trim s) \<subseteq> set s"
proof -
  have "set (trim s) \<subseteq> set (dropWhile isWhiteSpace s)"
    unfolding trim_def using set_dropWhileD [of _ isWhiteSpace "rev (dropWhile isWhiteSpace s)"]
    by auto
  then show ?thesis using set_dropWhileD [of _ isWhiteSpace s] by auto
qed

lemma toUppercase_ascii:
  "c < 0x80 \<Longrightarrow> e \<in> set (toUppercase tbl c) \<Longrightarrow> scalar e \<and> toUppercase tbl e = [e]"
  by (auto simp: toUppercase_def scalar_def split: if_splits)

text \<open>
  Claim C10, as amended. On every string without unpaired surrogates the function returns
  a string, and applying the function to that result returns it unchanged, provided that
  the uppercase mapping of the engine sends every code point to code points that it
  leaves unchanged and that are no surrogates (\<open>upper_stable\<close>, which Unicode's mapping
  satisfies). On a string of ASCII characters this holds whatever the mapping from U+0080
  on is.
\<close>

theorem normalizeFlightNumber_idempotent_well_formed:
  "(upper_stable tbl \<and> well_formed s \<longrightarrow>
      (\<exists>q. normalizeFlightNumber tbl (RStr s) = Inr q \<and> normalizeFlightNumber tbl (RStr q) = Inr q)) \<and>
   (list_all (\<lambda>u. unat u < 0x80) a \<longrightarrow>
      (\<exists>q. normalizeFlightNumber tbl (RStr a) = Inr q \<and> normalizeFlightNumber tbl (RStr q) = Inr q))"
proof (intro conjI impI)
  assume h: "upper_stable tbl \<and> well_formed s"
  then have "well_formed (trim s)" by (simp add: well_formed_trim)
  then have "\<forall>c\<in>set (StringToCodePoints (trim s)).
               \<forall>e\<in>set (toUppercase tbl c). scalar e \<and> toUppercase tbl e = [e]"
    using h by (auto simp: well_formed_def upper_stable_def list_all_iff)
  then have "clean tbl (replace_spaces (toUpperCase tbl (trim s)))" by (rule clean_cleaned)
  then show "\<exists>q. normalizeFlightNumber tbl (RStr s) = Inr q \<and>
      normalizeFlightNumber tbl (RStr q) = Inr q"
    by (rule normalizeFlightNumber_clean)
next
  assume h: "list_all (\<lambda>u. unat u < 0x80) a"
  have "list_all (\<lambda>u. unat u < 0x80) (trim a)"
    using h set_trim [of a] by (auto simp: list_all_iff)
  then have "\<forall>c\<in>set (StringToCodePoints (trim a)). c < 0x80"
    by (auto simp: StringToCodePoints_ascii list_all_iff)
  then have "\<forall>c\<in>set (StringToCodePoints (trim a)).
               \<forall>e\<in>set (toUppercase tbl c). scalar e \<and> toUppercase tbl e = [e]"
    using toUppercase_ascii by blast
  then have "clean tbl (replace_spaces (toUpperCase tbl (trim a)))" by (rule clean_cleaned)
  then show "\<exists>q. normalizeFlightNumber tbl (RStr a) = Inr q \<and>
      normalizeFlightNumber tbl (RStr q) = Inr q"
    by (rule normalizeFlightNumber_clean)
qed

text \<open>The entries of \<open>upper_fragment\<close> have the property that the theorem asks for.\<close>

lemma upper_stable_fragment: "upper_stable upper_fragment"
proof -
  have "scalar u \<and> toUppercase upper_fragment u = [u]"
    if cp: "scalar cp" and u: "u \<in> set (toUppercase upper_fragment cp)" for cp u
  proof -
    consider (ascii) "cp < 0x80" | (sharp_s) "cp = 0xDF"
      | (latin) "0xE0 \<le> cp \<and> cp \<le> 0xFE \<and> cp \<noteq> 0xF7"
      | (deseret) "0x10428 \<le> cp \<and> cp \<le> 0x1044F"
      | (other) "0x80 \<le> cp \<and> cp \<noteq> 0xDF \<and> \<not> (0xE0 \<le> cp \<and> cp \<le> 0xFE \<and> cp \<noteq> 0xF7) \<and>
                 \<not> (0x10428 \<le> cp \<and> cp \<le> 0x1044F)"
      by linarith
    then show ?thesis
    proof cases
      case ascii
      then show ?thesis using u by (auto simp: toUppercase_def scalar_def split: if_splits)
    next
      case sharp_s
      then have "u = 0x53" using u by (simp add: toUppercase_def upper_fragment_def)
      then show ?thesis by (simp add: toUppercase_def scalar_def)
    next
      case latin
      then have "u = cp - 0x20" using u by (simp add: toUppercase_def upper_fragment_def)
      then have "0xC0 \<le> u \<and> u \<le> 0xDE" using latin by linarith
      then show ?thesis by (simp add: toUppercase_def upper_fragment_def scalar_def)
    next
      case deseret
      then have "u = cp - 0x28" using u by (simp add: toUppercase_def upper_fragment_def)
      then have "0x10400 \<le> u \<and> u \<le> 0x10427" using deseret by linarith
      then show ?thesis by (simp add: toUppercase_def upper_fragment_def scalar_def)
    next
      case other
      then have f: "upper_fragment cp = [cp]" unfolding upper_fragment_def by presburger
      then have "u = cp" using u other by (simp add: toUppercase_def)
      then show ?thesis using other cp f by (simp add: toUppercase_def)
    qed
  qed
  then show ?thesis unfolding upper_stable_def by blast
qed


lemmas toUpperCase_eval = toUpperCase_def isLeadingSurrogate_def isTrailingSurrogate_def
  UTF16SurrogatePairToCodePoint_def toUppercase_def CodePointsToString_def UTF16EncodeCodePoint_def

lemmas prefix_rules_eval = prefix_rules_def startsWith_def digits_1_4_def isDecimalDigit_def
  str_def Let_def

text \<open>
  Claim C10 as stated fails on a string with two unpaired surrogates and white space
  between them. For U+D801, space, U+DC28, \<open>toUpperCase\<close> leaves the three code points
  alone and the \<open>replace\<close> deletes the space, so the first call returns U+D801 U+DC28:
  the surrogates now form the code point U+10428, a small letter of the Deseret alphabet.
  The second call maps it to the capital letter U+10400, that is U+D801 U+DC00.
\<close>

theorem normalizeFlightNumber_not_idempotent:
  "normalizeFlightNumber upper_fragment (RStr [0xD801, 0x20, 0xDC28]) = Inr [0xD801, 0xDC28] \<and>
   normalizeFlightNumber upper_fragment (RStr [0xD801, 0xDC28]) = Inr [0xD801, 0xDC00] \<and>
   [0xD801, 0xDC00] \<noteq> [0xD801, 0xDC28 :: code_unit]"
proof -
  have t1: "trim [0xD801, 0x20, 0xDC28] = [0xD801, 0x20, 0xDC28]"
    by (simp add: trim_def isWhiteSpace_def)
  have u1: "toUpperCase upper_fragment [0xD801, 0x20, 0xDC28] = [0xD801, 0x20, 0xDC28]"
    by (simp add: toUpperCase_eval upper_fragment_def)
  have r1: "replace_spaces [0xD801, 0x20, 0xDC28] = [0xD801, 0xDC28]"
    by (simp add: replace_spaces_def isWhiteSpace_def)
  have p1: "prefix_rules [0xD801, 0xDC28] = [0xD801, 0xDC28]"
    by (simp add: prefix_rules_eval)
  have t2: "trim [0xD801, 0xDC28] = [0xD801, 0xDC28]"
    by (simp add: trim_def isWhiteSpace_def)
  have u2: "toUpperCase upper_fragment [0xD801, 0xDC28] = [0xD801, 0xDC00]"
    by (simp add: toUpperCase_eval upper_fragment_def)
  have r2: "replace_spaces [0xD801, 0xDC00] = [0xD801, 0xDC00]"
    by (simp add: replace_spaces_def isWhiteSpace_def)
  have p2: "prefix_rules [0xD801, 0xDC00] = [0xD801, 0xDC00]"
    by (simp add: prefix_rules_eval)
  show ?thesis by (simp add: normalizeFlightNumber_string t1 u1 r1 p1 t2 u2 r2 p2)
qed

theorem normalizeFlightNumber_idempotent_well_formed_witness:
  "upper_stable upper_fragment \<and>
   well_formed [0xA0, 0x75, 0x61, 0x20, 0xDF, 0xD801, 0xDC28, 0x38, 0x20] \<and>
   normalizeFlightNumber upper_fragment (RStr [0xA0, 0x75, 0x61, 0x20, 0xDF, 0xD801, 0xDC28, 0x38, 0x20])
     = Inr [0x55, 0x41, 0x4C, 0x53, 0x53, 0xD801, 0xDC00, 0x38] \<and>
   normalizeFlightNumber upper_fragment (RStr [0x55, 0x41, 0x4C, 0x53, 0x53, 0xD801, 0xDC00, 0x38])
     = Inr [0x55, 0x41, 0x4C, 0x53, 0x53, 0xD801, 0xDC00, 0x38] \<and>
   list_all (\<lambda>u. unat u < 0x80) (str '' ua 838 '') \<and>
   normalizeFlightNumber upper_fragment (RStr (str '' ua 838 '')) = Inr (str ''UAL838'') \<and>
   normalizeFlightNumber upper_fragment (RStr (str ''UAL838'')) = Inr (str ''UAL838'')"
proof -
  have w: "well_formed [0xA0, 0x75, 0x61, 0x20, 0xDF, 0xD801, 0xDC28, 0x38, 0x20]"
    by (simp add: well_formed_def scalar_def isLeadingSurrogate_def isTrailingSurrogate_def
        UTF16SurrogatePairToCodePoint_def)
  have t: "trim [0xA0, 0x75, 0x61, 0x20, 0xDF, 0xD801, 0xDC28, 0x38, 0x20] =
      [0x75, 0x61, 0x20, 0xDF, 0xD801, 0xDC28, 0x38]"
    by (simp add: trim_def isWhiteSpace_def)
  have u: "toUpperCase upper_fragment [0x75, 0x61, 0x20, 0xDF, 0xD801, 0xDC28, 0x38] =
      [0x55, 0x41, 0x20, 0x53, 0x53, 0xD801, 0xDC00, 0x38]"
    by (simp add: toUpperCase_eval upper_fragment_def)
  have r: "replace_spaces [0x55, 0x41, 0x20, 0x53, 0x53, 0xD801, 0xDC00, 0x38] =
      [0x55, 0x41, 0x53, 0x53, 0xD801, 0xDC00, 0x38]"
    by (simp add: replace_spaces_def isWhiteSpace_def)
  have p: "prefix_rules [0x55, 0x41, 0x53, 0x53, 0xD801, 0xDC00, 0x38] =
      [0x55, 0x41, 0x4C, 0x53, 0x53, 0xD801, 0xDC00, 0x38]"
    by (simp add: prefix_rules_eval)
  have n: "normalizeFlightNumber upper_fragment
      (RStr [0xA0, 0x75, 0x61, 0x20, 0xDF, 0xD801, 0xDC28, 0x38, 0x20])
     = Inr [0x55, 0x41, 0x4C, 0x53, 0x53, 0xD801, 0xDC00, 0x38]"
    by (simp add: normalizeFlightNumber_string t u r p)
  have a: "list_all (\<lambda>u. unat u < 0x80) (str '' ua 838 '')" by (simp add: str_def)
  have s: "str '' ua 838 '' = [0x20, 0x75, 0x61, 0x20, 0x38, 0x33, 0x38, 0x20]"
    by (simp add: str_def)
  have ta: "trim [0x20, 0x75, 0x61, 0x20, 0x38, 0x33, 0x38, 0x20] = [0x75, 0x61, 0x20, 0x38, 0x33, 0x38]"
    by (simp add: trim_def isWhiteSpace_def)
  have ua: "toUpperCase upper_fragment [0x75, 0x61, 0x20, 0x38, 0x33, 0x38] =
      [0x55, 0x41, 0x20, 0x38, 0x33, 0x38]"
    by (simp add: toUpperCase_eval)
  have ra: "replace_spaces [0x55, 0x41, 0x20, 0x38, 0x33, 0x38] = [0x55, 0x41, 0x38, 0x33, 0x38]"
    by (simp add: replace_spaces_def isWhiteSpace_def)
  have pa: "prefix_rules [0x55, 0x41, 0x38, 0x33, 0x38] = str ''UAL838''"
    by (simp add: prefix_rules_eval)
  have na: "normalizeFlightNumber upper_fragment (RStr (str '' ua 838 '')) = Inr (str ''UAL838'')"
    by (simp add: normalizeFlightNumber_string s ta ua ra pa)
  from normalizeFlightNumber_idempotent_well_formed [of upper_fragment
      "[0xA0, 0x75, 0x61, 0x20, 0xDF, 0xD801, 0xDC28, 0x38, 0x20]" "str '' ua 838 ''"]
    upper_stable_fragment w n a na
  show ?thesis by simp
qed

lemma normalizeFlightNumber_absent:
  "normalizeFlightNumber tbl (RStr []) = Inr [] \<and> normalizeFlightNumber tbl RNull = Inr [] \<and>
   normalizeFlightNumber tbl RUndefined = Inr []"
  by (simp add: normalizeFlightNumber_def trim_def toUpperCase_def replace_spaces_def
      startsWith_def digits_1_4_def CodePointsToString_def str_def)

lemma normalizeFlightNumber_array: "normalizeFlightNumber tbl (RArr xs) = Inl TypeError"
  by (simp add: normalizeFlightNumber_def)

text \<open>
  Claim C3, the array case: for the array \<open>['UA100', 'UA200']\<close> the function raises a
  \<open>TypeError\<close>, whereas its value at the first element is \<open>UAL100\<close>. (Empty and absent
  input does give the empty string: \<open>normalizeFlightNumber_absent\<close>; every array raises:
  \<open>normalizeFlightNumber_array\<close>.)
\<close>

theorem normalizeFlightNumber_array_TypeError:
  "normalizeFlightNumber tbl (RArr [str ''UA100'', str ''UA200'']) = Inl TypeError \<and>
   normalizeFlightNumber tbl (first_element [str ''UA100'', str ''UA200'']) = Inr (str ''UAL100'')"
proof -
  have s: "str ''UA100'' = [0x55, 0x41, 0x31, 0x30, 0x30]" by (simp add: str_def)
  have t: "trim [0x55, 0x41, 0x31, 0x30, 0x30] = [0x55, 0x41, 0x31, 0x30, 0x30]"
    by (simp add: trim_def isWhiteSpace_def)
  have u: "toUpperCase tbl [0x55, 0x41, 0x31, 0x30, 0x30] = [0x55, 0x41, 0x31, 0x30, 0x30]"
    by (simp add: toUpperCase_eval)
  have r: "replace_spaces [0x55, 0x41, 0x31, 0x30, 0x30] = [0x55, 0x41, 0x31, 0x30, 0x30]"
    by (simp add: replace_spaces_def isWhiteSpace_def)
  have p: "prefix_rules [0x55, 0x41, 0x31, 0x30, 0x30] = str ''UAL100''"
    by (simp add: prefix_rules_eval)
  have "normalizeFlightNumber tbl (RStr (str ''UA100'')) = Inr (str ''UAL100'')"
    by (simp add: normalizeFlightNumber_string s t u r p)
  then show ?thesis by (simp add: first_element_def normalizeFlightNumber_array)
qed

section \<open>Properties of the per-client limiter\<close>

lemma isRateLimited_ipLog:
  "isRateLimited m now ip =
     (let l = dropWhile (\<lambda>t. t < now - 60000) (ipLog_of m ip)
      in if length l \<ge> 5 then (True, m(ip \<mapsto> l)) else (False, m(ip \<mapsto> l @ [now])))"
  by (simp add: isRateLimited_def ipLog_of_def Let_def)

text \<open>
  The array of a client stays sorted, and no entry is later than the last call, as long
  as the clock does not go back.
\<close>

lemma isRateLimited_sorted:
  assumes "sorted (ipLog_of m ip)" and "\<forall>t\<in>set (ipLog_of m ip). t \<le> now"
  shows "sorted (ipLog_of (snd (isRateLimited m now ip)) ip) \<and>
         (\<forall>t\<in>set (ipLog_of (snd (isRateLimited m now ip)) ip). t \<le> now)"
proof -
  let ?l = "dropWhile (\<lambda>t. t < now - 60000) (ipLog_of m ip)"
  have s: "sorted ?l" using assms(1) by (rule sorted_dropWhile)
  have b: "\<forall>t\<in>set ?l. t \<le> now" using assms(2) by (auto dest: set_dropWhileD)
  have "sorted (?l @ [now])" using s b by (simp add: sorted_append)
  then show ?thesis using s b
    by (auto simp: isRateLimited_ipLog ipLog_of_def Let_def)
qed

lemma dropWhile_sorted_filter:
  "sorted l \<Longrightarrow> dropWhile (\<lambda>t. t < (b::int)) l = filter (\<lambda>t. \<not> t < b) l"
proof (induction l)
  case Nil
  then show ?case by simp
next
  case (Cons a l)
  show ?case
  proof (cases "a < b")
    case True
    with Cons show ?thesis by simp
  next
    case False
    with Cons.prems have "\<forall>t\<in>set l. \<not> t < b" by auto
    then have "filter (\<lambda>t. \<not> t < b) l = l" by (simp add: filter_True)
    with False show ?thesis by simp
  qed
qed

lemma dropWhile_none: "\<forall>t\<in>set l. \<not> P t \<Longrightarrow> dropWhile P l = l"
  by (cases l) auto

lemma isRateLimited_fresh:
  assumes "\<forall>t\<in>set (ipLog_of m ip). now - 60000 \<le> t"
  shows "isRateLimited m now ip =
           (if length (ipLog_of m ip) \<ge> 5 then (True, m(ip \<mapsto> ipLog_of m ip))
            else (False, m(ip \<mapsto> ipLog_of m ip @ [now])))"
proof -
  have "dropWhile (\<lambda>t. t < now - 60000) (ipLog_of m ip) = ipLog_of m ip"
    by (rule dropWhile_none) (use assms in auto)
  then show ?thesis by (simp add: isRateLimited_ipLog)
qed

lemma calls_Cons:
  "isRateLimited_calls m ip (now # rest) =
     (fst (isRateLimited m now ip) # fst (isRateLimited_calls (snd (isRateLimited m now ip)) ip rest),
      snd (isRateLimited_calls (snd (isRateLimited m now ip)) ip rest))"
  by (simp add: case_prod_unfold Let_def)

lemma calls_in_window:
  assumes "\<forall>t\<in>set (ipLog_of m ip) \<union> set ts. \<forall>u\<in>set ts. u - 60000 \<le> t"
  shows "fst (isRateLimited_calls m ip ts) =
           replicate (min (5 - length (ipLog_of m ip)) (length ts)) False
           @ replicate (length ts - (5 - length (ipLog_of m ip))) True \<and>
         ipLog_of (snd (isRateLimited_calls m ip ts)) ip =
           ipLog_of m ip @ take (5 - length (ipLog_of m ip)) ts"
  using assms
proof (induction ts arbitrary: m)
  case Nil
  then show ?case by simp
next
  case (Cons now rest)
  let ?l = "ipLog_of m ip"
  have fresh: "\<forall>t\<in>set ?l. now - 60000 \<le> t" using Cons.prems by auto
  note step = isRateLimited_fresh [OF fresh]
  show ?case
  proof (cases "length ?l \<ge> 5")
    case True
    let ?m1 = "m(ip \<mapsto> ?l)"
    have l1: "ipLog_of ?m1 ip = ?l" by (simp add: ipLog_of_def)
    have pre: "\<forall>t\<in>set (ipLog_of ?m1 ip) \<union> set rest. \<forall>u\<in>set rest. u - 60000 \<le> t"
      using Cons.prems by (auto simp: l1)
    from Cons.IH [OF pre]
    have ih: "fst (isRateLimited_calls ?m1 ip rest) =
                replicate (min (5 - length ?l) (length rest)) False
                @ replicate (length rest - (5 - length ?l)) True"
      "ipLog_of (snd (isRateLimited_calls ?m1 ip rest)) ip = ?l @ take (5 - length ?l) rest"
      unfolding l1 by blast+
    have "isRateLimited_calls m ip (now # rest) =
            (True # fst (isRateLimited_calls ?m1 ip rest), snd (isRateLimited_calls ?m1 ip rest))"
      using True unfolding calls_Cons by (simp add: step)
    with ih True show ?thesis by simp
  next
    case False
    let ?m1 = "m(ip \<mapsto> ?l @ [now])"
    have l1: "ipLog_of ?m1 ip = ?l @ [now]" by (simp add: ipLog_of_def)
    have pre: "\<forall>t\<in>set (ipLog_of ?m1 ip) \<union> set rest. \<forall>u\<in>set rest. u - 60000 \<le> t"
      using Cons.prems by (auto simp: l1)
    have n: "5 - length ?l = Suc (4 - length ?l)" using False by simp
    have n1: "5 - length (?l @ [now]) = 4 - length ?l" by simp
    from Cons.IH [OF pre]
    have ih: "fst (isRateLimited_calls ?m1 ip rest) =
                replicate (min (4 - length ?l) (length rest)) False
                @ replicate (length rest - (4 - length ?l)) True"
      "ipLog_of (snd (isRateLimited_calls ?m1 ip rest)) ip =
         (?l @ [now]) @ take (4 - length ?l) rest"
      unfolding l1 n1 by blast+
    have "isRateLimited_calls m ip (now # rest) =
            (False # fst (isRateLimited_calls ?m1 ip rest), snd (isRateLimited_calls ?m1 ip rest))"
      using False unfolding calls_Cons by (simp add: step)
    with ih show ?thesis by (simp add: n)
  qed
qed

lemma calls_append:
  "isRateLimited_calls m ip (as @ bs) =
     (fst (isRateLimited_calls m ip as) @ fst (isRateLimited_calls (snd (isRateLimited_calls m ip as)) ip bs),
      snd (isRateLimited_calls (snd (isRateLimited_calls m ip as)) ip bs))"
  by (induction as arbitrary: m) (simp_all add: case_prod_unfold Let_def)

text \<open>
  Claim C6. First part, one check: the array of a client is in the order of the calls, so
  with a clock that does not go back it is sorted, and then the loop leaves exactly the
  times that are not older than 60000 ms; with five or more of them left the call is
  refused and only the pruned array is stored, otherwise the call is allowed and \<open>now\<close> is
  appended. The arrays of other clients are untouched. Second part, a client without
  recorded calls that calls at the times \<open>ts\<close>, in order and all within 60000 ms of the first:
  the first five calls are allowed and every further one is refused; a call at a time
  \<open>later\<close>, more than 60000 ms after the first call, is allowed again.
\<close>

theorem isRateLimited_sliding_window:
  "(sorted (ipLog_of m' ip') \<longrightarrow>
      isRateLimited m' now ip' =
        (let kept = filter (\<lambda>t. \<not> t < now - 60000) (ipLog_of m' ip')
         in if length kept \<ge> 5 then (True, m'(ip' \<mapsto> kept))
            else (False, m'(ip' \<mapsto> kept @ [now])))) \<and>
   (other \<noteq> ip' \<longrightarrow> snd (isRateLimited m' now ip') other = m' other) \<and>
   (ipLog_of m ip = [] \<and> sorted ts \<and> ts \<noteq> [] \<and> last ts \<le> hd ts + 60000 \<and>
    last ts \<le> later \<and> hd ts + 60000 < later \<longrightarrow>
      fst (isRateLimited_calls m ip (ts @ [later])) =
        replicate (min 5 (length ts)) False @ replicate (length ts - 5) True @ [False])"
proof (intro conjI impI)
  assume "sorted (ipLog_of m' ip')"
  then show "isRateLimited m' now ip' =
        (let kept = filter (\<lambda>t. \<not> t < now - 60000) (ipLog_of m' ip')
         in if length kept \<ge> 5 then (True, m'(ip' \<mapsto> kept))
            else (False, m'(ip' \<mapsto> kept @ [now])))"
    by (simp add: isRateLimited_ipLog dropWhile_sorted_filter)
next
  assume "other \<noteq> ip'"
  then show "snd (isRateLimited m' now ip') other = m' other"
    by (simp add: isRateLimited_ipLog Let_def)
next
  assume a: "ipLog_of m ip = [] \<and> sorted ts \<and> ts \<noteq> [] \<and> last ts \<le> hd ts + 60000 \<and>
    last ts \<le> later \<and> hd ts + 60000 < later"
  then have empty: "ipLog_of m ip = []" and srt: "sorted ts" and ne: "ts \<noteq> []"
    and win: "last ts \<le> hd ts + 60000" and late: "hd ts + 60000 < later" by auto
  have lo: "hd ts \<le> t" if "t \<in> set ts" for t
    using srt ne that by (cases ts) auto
  have hi: "t \<le> last ts" if "t \<in> set ts" for t
  proof -
    have "sorted (butlast ts @ [last ts])" using srt ne by simp
    then have "\<forall>x\<in>set (butlast ts). x \<le> last ts" by (simp add: sorted_append)
    moreover have "set ts = set (butlast ts) \<union> {last ts}"
      using ne by (metis append_butlast_last_id list.simps(15) set_append empty_set Un_insert_right sup_bot.right_neutral)
    ultimately show ?thesis using that by auto
  qed
  have pre: "\<forall>t\<in>set (ipLog_of m ip) \<union> set ts. \<forall>u\<in>set ts. u - 60000 \<le> t"
    using lo hi win by (fastforce simp: empty)
  let ?m1 = "snd (isRateLimited_calls m ip ts)"
  from calls_in_window [OF pre]
  have res: "fst (isRateLimited_calls m ip ts) =
               replicate (min 5 (length ts)) False @ replicate (length ts - 5) True"
    and log: "ipLog_of ?m1 ip = take 5 ts"
    by (simp_all add: empty)
  have hd_old: "hd (take 5 ts) < later - 60000" using ne late by (cases ts) auto
  have "take 5 ts \<noteq> []" using ne by simp
  then have "length (dropWhile (\<lambda>t. t < later - 60000) (take 5 ts)) < length (take 5 ts)"
    using hd_old by (cases "take 5 ts") (auto simp: le_imp_less_Suc length_dropWhile_le)
  then have "\<not> length (dropWhile (\<lambda>t. t < later - 60000) (take 5 ts)) \<ge> 5" by simp
  then have last_ok: "fst (isRateLimited ?m1 later ip) = False"
    by (simp add: isRateLimited_ipLog log Let_def)
  show "fst (isRateLimited_calls m ip (ts @ [later])) =
        replicate (min 5 (length ts)) False @ replicate (length ts - 5) True @ [False]"
    using last_ok by (simp add: calls_append res case_prod_unfold Let_def)
qed

theorem isRateLimited_sliding_window_witness:
  "sorted (ipLog_of [(7::nat) \<mapsto> [0, 10, 20, 30, 40]] 7) \<and>
   isRateLimited [(7::nat) \<mapsto> [0, 10, 20, 30, 40]] 60005 7
     = (False, [7 \<mapsto> [10, 20, 30, 40, 60005]]) \<and>
   (8::nat) \<noteq> 7 \<and> snd (isRateLimited [(7::nat) \<mapsto> [0, 10, 20, 30, 40]] 60005 7) 8 = None \<and>
   ipLog_of (Map.empty :: nat rate_log) 7 = [] \<and> sorted [0, 100, 200, 300, 400, 60000 :: int] \<and>
   [0, 100, 200, 300, 400, 60000 :: int] \<noteq> [] \<and>
   last [0, 100, 200, 300, 400, 60000 :: int] \<le> hd [0, 100, 200, 300, 400, 60000] + 60000 \<and>
   last [0, 100, 200, 300, 400, 60000 :: int] \<le> 60001 \<and>
   hd [0, 100, 200, 300, 400, 60000 :: int] + 60000 < 60001 \<and>
   fst (isRateLimited_calls (Map.empty :: nat rate_log) 7 ([0, 100, 200, 300, 400, 60000] @ [60001]))
     = [False, False, False, False, False, True, False]"
  using isRateLimited_sliding_window [of "[(7::nat) \<mapsto> [0, 10, 20, 30, 40]]" 7 60005 8
      "Map.empty" 7 "[0, 100, 200, 300, 400, 60000]" 60001]
  by (simp add: ipLog_of_def isRateLimited_def Let_def)

section \<open>Properties of the selection\<close>

lemma loop_candidates:
  "bestFlight_loop flights best =
     foldl (\<lambda>b c. update_best b (fst c) (snd c)) best (candidates flights)"
  by (induction flights best rule: bestFlight_loop.induct) (auto split: option.splits list.splits)

lemma update_best_Some:
  "update_best (Some b) k f =
     (if has_scheduled (k, f) \<and> (\<not> has_scheduled b \<or> scheduled_of (k, f) > scheduled_of b)
      then Some (k, f) else Some b)"
  by (cases b) (auto simp: update_best_def has_scheduled_def scheduled_of_def)

lemma fold_best:
  "\<exists>r. foldl (\<lambda>b c. update_best b (fst c) (snd c)) (Some b) cs = Some r \<and>
       r \<in> insert b (set cs) \<and>
       (\<forall>c\<in>insert b (set cs). has_scheduled c \<longrightarrow> has_scheduled r \<and> scheduled_of c \<le> scheduled_of r) \<and>
       ((\<forall>c\<in>set cs. \<not> has_scheduled c) \<longrightarrow> r = b)"
proof (induction cs arbitrary: b)
  case Nil
  then show ?case by simp
next
  case (Cons c cs)
  let ?b1 = "if has_scheduled c \<and> (\<not> has_scheduled b \<or> scheduled_of c > scheduled_of b) then c else b"
  have step: "update_best (Some b) (fst c) (snd c) = Some ?b1"
    using update_best_Some [of b "fst c" "snd c"] by auto
  from Cons.IH [of ?b1] obtain r where
    r: "foldl (\<lambda>b c. update_best b (fst c) (snd c)) (Some ?b1) cs = Some r"
    and mem: "r \<in> insert ?b1 (set cs)"
    and mx: "\<forall>c\<in>insert ?b1 (set cs). has_scheduled c \<longrightarrow> has_scheduled r \<and> scheduled_of c \<le> scheduled_of r"
    and keep: "(\<forall>c\<in>set cs. \<not> has_scheduled c) \<longrightarrow> r = ?b1"
    by blast
  have b1: "?b1 = b \<or> ?b1 = c" by simp
  have "foldl (\<lambda>b c. update_best b (fst c) (snd c)) (Some b) (c # cs) = Some r"
    using r by (simp only: foldl_Cons step)
  moreover have "r \<in> insert b (set (c # cs))" using mem b1 by auto
  moreover have "\<forall>x\<in>insert b (set (c # cs)). has_scheduled x \<longrightarrow> has_scheduled r \<and> scheduled_of x \<le> scheduled_of r"
  proof (intro ballI impI)
    fix x assume x: "x \<in> insert b (set (c # cs))" and hx: "has_scheduled x"
    have top: "has_scheduled ?b1 \<longrightarrow> has_scheduled r \<and> scheduled_of ?b1 \<le> scheduled_of r"
      using mx by blast
    consider "x = b" | "x = c" | "x \<in> set cs" using x by auto
    then show "has_scheduled r \<and> scheduled_of x \<le> scheduled_of r"
    proof cases
      case 1
      with hx top show ?thesis by (auto split: if_splits)
    next
      case 2
      with hx top show ?thesis by (auto split: if_splits)
    next
      case 3
      with hx mx show ?thesis by blast
    qed
  qed
  moreover have "(\<forall>x\<in>set (c # cs). \<not> has_scheduled x) \<longrightarrow> r = b"
    using keep by auto
  ultimately show ?case by blast
qed

lemma update_best_None: "update_best None k f = Some (k, f)"
  by (simp add: update_best_def)

lemma select_none: "candidates flights = [] \<Longrightarrow> select_flight flights = Inl (404, ''No active flight found'')"
  by (simp add: select_flight_def loop_candidates)

lemma select_some:
  assumes "candidates flights \<noteq> []"
  shows "\<exists>b. select_flight flights = Inr b \<and> b \<in> set (candidates flights) \<and>
           (\<forall>c\<in>set (candidates flights). has_scheduled c \<longrightarrow>
               has_scheduled b \<and> scheduled_of c \<le> scheduled_of b) \<and>
           ((\<forall>c\<in>set (candidates flights). \<not> has_scheduled c) \<longrightarrow> b = hd (candidates flights))"
proof -
  from assms obtain c cs where cs: "candidates flights = c # cs" by (cases "candidates flights") auto
  from fold_best [of c cs] obtain r where
    r: "foldl (\<lambda>b c. update_best b (fst c) (snd c)) (Some c) cs = Some r"
    and mem: "r \<in> insert c (set cs)"
    and mx: "\<forall>x\<in>insert c (set cs). has_scheduled x \<longrightarrow> has_scheduled r \<and> scheduled_of x \<le> scheduled_of r"
    and keep: "(\<forall>x\<in>set cs. \<not> has_scheduled x) \<longrightarrow> r = c"
    by blast
  have "select_flight flights = Inr r"
    using r by (simp add: select_flight_def loop_candidates cs update_best_None)
  with mem mx keep show ?thesis by (auto simp: cs)
qed

text \<open>
  Claim C8. With no candidate the answer is the 404 response. Otherwise the chosen flight
  is one of the candidates, and whenever some candidate has a scheduled gate departure
  (present and not zero) the chosen one has it too and no candidate's is larger. When no
  candidate has one, the first candidate is chosen. In one pass of the loop, a candidate
  without the value never replaces a chosen flight that has it, and any candidate is
  accepted while none is chosen.
\<close>

theorem select_flight_largest_scheduled:
  "(candidates fs0 = [] \<longrightarrow> select_flight fs0 = Inl (404, ''No active flight found'')) \<and>
   (candidates fs \<noteq> [] \<longrightarrow>
      (\<exists>b. select_flight fs = Inr b \<and> b \<in> set (candidates fs) \<and>
           (\<forall>c\<in>set (candidates fs). has_scheduled c \<longrightarrow>
               has_scheduled b \<and> scheduled_of c \<le> scheduled_of b))) \<and>
   (candidates fs1 \<noteq> [] \<and> list_all (\<lambda>c. \<not> has_scheduled c) (candidates fs1) \<longrightarrow>
      select_flight fs1 = Inr (hd (candidates fs1))) \<and>
   (has_scheduled (bestKey, bestFlight) \<and> \<not> has_scheduled (key, f) \<longrightarrow>
      update_best (Some (bestKey, bestFlight)) key f = Some (bestKey, bestFlight)) \<and>
   update_best None key f = Some (key, f)"
proof (intro conjI impI)
  assume "candidates fs0 = []"
  then show "select_flight fs0 = Inl (404, ''No active flight found'')" by (rule select_none)
next
  assume "candidates fs \<noteq> []"
  from select_some [OF this]
  show "\<exists>b. select_flight fs = Inr b \<and> b \<in> set (candidates fs) \<and>
           (\<forall>c\<in>set (candidates fs). has_scheduled c \<longrightarrow>
               has_scheduled b \<and> scheduled_of c \<le> scheduled_of b)" by blast
next
  assume a: "candidates fs1 \<noteq> [] \<and> list_all (\<lambda>c. \<not> has_scheduled c) (candidates fs1)"
  then have "candidates fs1 \<noteq> []" and "\<forall>c\<in>set (candidates fs1). \<not> has_scheduled c"
    by (simp_all add: list_all_iff)
  with select_some [of fs1] show "select_flight fs1 = Inr (hd (candidates fs1))" by auto
next
  assume "has_scheduled (bestKey, bestFlight) \<and> \<not> has_scheduled (key, f)"
  then show "update_best (Some (bestKey, bestFlight)) key f = Some (bestKey, bestFlight)"
    by (simp add: update_best_Some)
next
  show "update_best None key f = Some (key, f)" by (rule update_best_None)
qed

theorem select_flight_largest_scheduled_witness:
  "candidates flights_empty_ex = [] \<and>
   select_flight flights_empty_ex = Inl (404, ''No active flight found'') \<and>
   candidates flights_ex \<noteq> [] \<and>
   select_flight flights_ex = Inr (''k5'', flight_at ''c'' (Some 300)) \<and>
   candidates flights_unscheduled_ex \<noteq> [] \<and>
   list_all (\<lambda>c. \<not> has_scheduled c) (candidates flights_unscheduled_ex) \<and>
   select_flight flights_unscheduled_ex = Inr (''k2'', flight_at ''a'' None) \<and>
   has_scheduled (''k5'', flight_at ''c'' (Some 300)) \<and> \<not> has_scheduled (''k7'', flight_at ''e'' (Some 0)) \<and>
   update_best (Some (''k5'', flight_at ''c'' (Some 300))) ''k7'' (flight_at ''e'' (Some 0))
     = Some (''k5'', flight_at ''c'' (Some 300))"
  using select_flight_largest_scheduled [of flights_empty_ex flights_ex flights_unscheduled_ex
      "''k5''" "flight_at ''c'' (Some 300)" "''k7''" "flight_at ''e'' (Some 0)"]
  by (simp add: flights_empty_ex_def flights_ex_def flights_unscheduled_ex_def flight_at_def
      has_scheduled_def scheduled_of_def truthy_def select_flight_def update_best_def)

section \<open>Properties of \<open>epochToISO\<close>\<close>

subsection \<open>Calendar arithmetic\<close>

lemma DaysInYear_pos: "365 \<le> DaysInYear y \<and> DaysInYear y \<le> 366"
  by (simp add: DaysInYear_def)

lemma div_next:
  fixes x n :: int
  assumes "0 < n"
  shows "(x + 1) div n = x div n + (if (x + 1) mod n = 0 then 1 else 0)"
proof -
  have r: "0 \<le> x mod n" "x mod n < n" using assms by simp_all
  have x: "x = n * (x div n) + x mod n" by simp
  show ?thesis
  proof (cases "x mod n + 1 = n")
    case True
    have "n * (x div n + 1) + 0 = n * (x div n) + (x mod n + 1)"
      using True by (simp add: algebra_simps)
    also have "\<dots> = x + 1" by simp
    finally have e: "x + 1 = n * (x div n + 1) + 0" by simp
    have "(x + 1) div n = x div n + 1"
      by (rule int_div_pos_eq [OF e]) (use assms in auto)
    moreover have "(x + 1) mod n = 0"
      by (rule int_mod_pos_eq [OF e]) (use assms in auto)
    ultimately show ?thesis by simp
  next
    case False
    have e: "x + 1 = n * (x div n) + (x mod n + 1)" by simp
    have lt: "x mod n + 1 < n" using r False by simp
    have "(x + 1) div n = x div n"
      by (rule int_div_pos_eq [OF e]) (use r lt in auto)
    moreover have "(x + 1) mod n = x mod n + 1"
      by (rule int_mod_pos_eq [OF e]) (use r lt in auto)
    ultimately show ?thesis using r by simp
  qed
qed

lemma mod_4_shift: "((y::int) - 1968) mod 4 = y mod 4"
  using mod_mult_self2 [of y 4 "-492"] by simp
lemma mod_100_shift: "((y::int) - 1900) mod 100 = y mod 100"
  using mod_mult_self2 [of y 100 "-19"] by simp
lemma mod_400_shift: "((y::int) - 1600) mod 400 = y mod 400"
  using mod_mult_self2 [of y 400 "-4"] by simp
lemma mod_100_imp_4: "(y::int) mod 100 = 0 \<Longrightarrow> y mod 4 = 0"
proof -
  assume "y mod 100 = 0"
  then have "100 dvd y" by (simp add: dvd_eq_mod_eq_0)
  moreover have "(4::int) dvd 100" by simp
  ultimately have "4 dvd y" by (rule dvd_trans [rotated])
  then show ?thesis by (simp add: dvd_eq_mod_eq_0)
qed
lemma mod_400_imp_100: "(y::int) mod 400 = 0 \<Longrightarrow> y mod 100 = 0"
proof -
  assume "y mod 400 = 0"
  then have "400 dvd y" by (simp add: dvd_eq_mod_eq_0)
  moreover have "(100::int) dvd 400" by simp
  ultimately have "100 dvd y" by (rule dvd_trans [rotated])
  then show ?thesis by (simp add: dvd_eq_mod_eq_0)
qed
lemma div_4_next: "((y::int) + 1 - 1969) div 4 = (y - 1969) div 4 + (if y mod 4 = 0 then 1 else 0)"
  using div_next [of 4 "y - 1969"] mod_4_shift [of y] by (simp add: algebra_simps)
lemma div_100_next: "((y::int) + 1 - 1901) div 100 = (y - 1901) div 100 + (if y mod 100 = 0 then 1 else 0)"
  using div_next [of 100 "y - 1901"] mod_100_shift [of y] by (simp add: algebra_simps)
lemma div_400_next: "((y::int) + 1 - 1601) div 400 = (y - 1601) div 400 + (if y mod 400 = 0 then 1 else 0)"
  using div_next [of 400 "y - 1601"] mod_400_shift [of y] by (simp add: algebra_simps)

lemma DayFromYear_next: "DayFromYear (y + 1) = DayFromYear y + DaysInYear y"
  unfolding DayFromYear_def DaysInYear_def div_4_next div_100_next div_400_next
  using mod_100_imp_4 [of y] mod_400_imp_100 [of y] by auto

lemma DayFromYear_prev: "DayFromYear (y - 1) = DayFromYear y - DaysInYear (y - 1)"
  using DayFromYear_next [of "y - 1"] by simp

lemma year_split_inv:
  "year_split y d = (y', d') \<Longrightarrow>
     DayFromYear y' + d' = DayFromYear y + d \<and> 0 \<le> d' \<and> d' < DaysInYear y'"
proof (induction y d rule: year_split.induct)
  case (1 y d)
  show ?case
  proof (cases "d < 0")
    case True
    with "1.prems" have "year_split (y - 1) (d + DaysInYear (y - 1)) = (y', d')"
      by (simp add: year_split.simps [of y d])
    from "1.IH"(1) [OF True this] show ?thesis by (simp add: DayFromYear_prev)
  next
    case False
    show ?thesis
    proof (cases "d \<ge> DaysInYear y")
      case True
      with False "1.prems" have "year_split (y + 1) (d - DaysInYear y) = (y', d')"
        by (simp add: year_split.simps [of y d])
      from "1.IH"(2) [OF False True this] show ?thesis by (simp add: DayFromYear_next)
    next
      case nd: False
      with False "1.prems" show ?thesis by (simp add: year_split.simps [of y d])
    qed
  qed
qed

lemma month_split_inv:
  "month_split ls m d = (m', d') \<Longrightarrow> 0 \<le> d \<Longrightarrow> d < sum_list ls \<Longrightarrow> \<forall>l\<in>set ls. 0 < l \<Longrightarrow>
     m \<le> m' \<and> m' < m + int (length ls) \<and> 0 \<le> d' \<and> d' < ls ! nat (m' - m) \<and>
     sum_list (take (nat (m' - m)) ls) + d' = d"
proof (induction ls m d rule: month_split.induct)
  case (1 m d)
  then show ?case by simp
next
  case (2 l ls m d)
  show ?case
  proof (cases "d < l")
    case True
    with "2.prems" show ?thesis by simp
  next
    case False
    with "2.prems" have ms: "month_split ls (m + 1) (d - l) = (m', d')" by simp
    have pre: "0 \<le> d - l" "d - l < sum_list ls" "\<forall>l\<in>set ls. 0 < l"
      using False "2.prems" by auto
    from "2.IH" [OF False ms pre]
    have ih: "m + 1 \<le> m'" "m' < m + 1 + int (length ls)" "0 \<le> d'"
      "d' < ls ! nat (m' - (m + 1))" "sum_list (take (nat (m' - (m + 1))) ls) + d' = d - l"
      by auto
    have n: "nat (m' - m) = Suc (nat (m' - (m + 1)))" using ih(1) by simp
    show ?thesis using ih by (simp add: n)
  qed
qed

lemma sum_month_lengths: "sum_list (month_lengths y) = DaysInYear y"
  by (simp add: month_lengths_def DaysInYear_def)

lemma month_lengths_pos: "\<forall>l\<in>set (month_lengths y). 0 < l"
  by (simp add: month_lengths_def)

lemma year_fields:
  "DayFromYear (YearFromTime t) + DayWithinYear t = Day t \<and>
   0 \<le> DayWithinYear t \<and> DayWithinYear t < DaysInYear (YearFromTime t)"
  using year_split_inv [of 1970 "Day t" "YearFromTime t" "DayWithinYear t"]
  by (simp add: YearFromTime_def DayWithinYear_def DayFromYear_def)

lemma month_fields:
  "0 \<le> MonthFromTime t \<and> MonthFromTime t \<le> 11 \<and> 1 \<le> DateFromTime t \<and>
   DateFromTime t \<le> month_lengths (YearFromTime t) ! nat (MonthFromTime t) \<and>
   sum_list (take (nat (MonthFromTime t)) (month_lengths (YearFromTime t))) + DateFromTime t - 1
     = DayWithinYear t"
proof -
  let ?ls = "month_lengths (YearFromTime t)"
  have sp: "month_split ?ls 0 (DayWithinYear t) = (MonthFromTime t, DateFromTime t - 1)"
    by (simp add: MonthFromTime_def DateFromTime_def)
  have len: "length ?ls = 12" by (simp add: month_lengths_def)
  from month_split_inv [OF sp _ _ month_lengths_pos] year_fields [of t]
  show ?thesis by (simp add: sum_month_lengths len)
qed

lemma MakeDay_fields: "MakeDay (YearFromTime t) (MonthFromTime t) (DateFromTime t) = Day t"
  using year_fields [of t] month_fields [of t] by (simp add: MakeDay_def)

lemma time_fields:
  "0 \<le> HourFromTime t \<and> HourFromTime t < 24 \<and> 0 \<le> MinFromTime t \<and> MinFromTime t < 60 \<and>
   0 \<le> SecFromTime t \<and> SecFromTime t < 60 \<and> 0 \<le> msFromTime t \<and> msFromTime t < 1000"
  by (simp add: HourFromTime_def MinFromTime_def SecFromTime_def msFromTime_def)

lemma MakeTime_fields:
  "MakeTime (HourFromTime t) (MinFromTime t) (SecFromTime t) (msFromTime t) = TimeWithinDay t"
proof -
  have s: "t div 60000 = (t div 1000) div 60" by (simp add: zdiv_zmult2_eq)
  have m: "t div 3600000 = (t div 60000) div 60" by (simp add: zdiv_zmult2_eq)
  have h: "t div 86400000 = (t div 3600000) div 24" by (simp add: zdiv_zmult2_eq)
  have "t mod 86400000 = t - 86400000 * (t div 86400000)" by (simp add: minus_mult_div_eq_mod mult.commute)
  moreover have "(t div 3600000) mod 24 = t div 3600000 - 24 * (t div 86400000)"
    unfolding h by (simp add: minus_mult_div_eq_mod mult.commute)
  moreover have "(t div 60000) mod 60 = t div 60000 - 60 * (t div 3600000)"
    unfolding m by (simp add: minus_mult_div_eq_mod mult.commute)
  moreover have "(t div 1000) mod 60 = t div 1000 - 60 * (t div 60000)"
    unfolding s by (simp add: minus_mult_div_eq_mod mult.commute)
  moreover have "t mod 1000 = t - 1000 * (t div 1000)" by (simp add: minus_mult_div_eq_mod mult.commute)
  ultimately show ?thesis
    by (simp add: MakeTime_def HourFromTime_def MinFromTime_def SecFromTime_def msFromTime_def
        TimeWithinDay_def msPerDay_def)
qed

lemma MakeDate_fields:
  "MakeDate (MakeDay (YearFromTime t) (MonthFromTime t) (DateFromTime t))
            (MakeTime (HourFromTime t) (MinFromTime t) (SecFromTime t) (msFromTime t)) = t"
  by (simp add: MakeDay_fields MakeTime_fields MakeDate_def Day_def TimeWithinDay_def)

subsection \<open>Printing\<close>

lemma decimal_snoc: "decimal (s @ [c]) = decimal s * 10 + (int (of_char c) - 48)"
  by (simp add: decimal_def)

lemma of_char_digitChar: "int (of_char (digitChar n) :: nat) - 48 = n mod 10"
proof -
  have "nat (n mod 10) < 10" by simp
  then have "(48 + nat (n mod 10)) mod 256 = 48 + nat (n mod 10)" by simp
  then show ?thesis by (simp add: digitChar_def)
qed

lemma isDigit_digitChar: "isDigit (digitChar n)"
proof -
  have "nat (n mod 10) < 10" by simp
  then have "(48 + nat (n mod 10)) mod 256 = 48 + nat (n mod 10)" by simp
  then show ?thesis using \<open>nat (n mod 10) < 10\<close> by (simp add: digitChar_def isDigit_def)
qed

lemma pad_digits:
  "0 \<le> n \<Longrightarrow> decimal (pad w n) = n mod 10 ^ w \<and> length (pad w n) = w \<and> list_all isDigit (pad w n)"
proof (induction w n rule: pad.induct)
  case (1 n)
  then show ?case by (simp add: decimal_def)
next
  case (2 w n)
  have nn: "0 \<le> n div 10" using "2.prems" by simp
  have m: "n mod (10 * 10 ^ w) = 10 * (n div 10 mod 10 ^ w) + n mod 10"
    by (rule zmod_zmult2_eq) simp
  from "2.IH" [OF nn] show ?case
    by (simp add: decimal_snoc of_char_digitChar isDigit_digitChar m)
qed

lemma epochToISO_Val:
  "n \<noteq> 0 \<Longrightarrow> abs (n * 1000) \<le> 8640000000000000 \<Longrightarrow>
   epochToISO (Val n) =
     Inr (yearString (YearFromTime (n * 1000)) @ ''-'' @ pad 2 (MonthFromTime (n * 1000) + 1) @ ''-''
          @ pad 2 (DateFromTime (n * 1000)) @ ''T'' @ pad 2 (HourFromTime (n * 1000)) @ '':''
          @ pad 2 (MinFromTime (n * 1000)) @ '':'' @ pad 2 (SecFromTime (n * 1000)) @ ''.''
          @ pad 3 (msFromTime (n * 1000)) @ ''Z'')"
  by (simp add: epochToISO_def toISOString_def)

lemma DayFromYear_mono: "DayFromYear y \<le> DayFromYear (y + int k)"
proof (induction k)
  case 0
  show ?case by simp
next
  case (Suc k)
  have eq: "y + int (Suc k) = (y + int k) + 1" by simp
  have "DayFromYear (y + int (Suc k)) = DayFromYear (y + int k) + DaysInYear (y + int k)"
    unfolding eq by (rule DayFromYear_next)
  with Suc DaysInYear_pos [of "y + int k"] show ?case by simp
qed

lemma ms_zero: "msFromTime (n * 1000) = 0"
  by (simp add: msFromTime_def)

lemma pad_3_0: "pad 3 0 = ''000''"
  by code_simp

text \<open>
  Claim C9, as amended. Zero, \<open>null\<close> and \<open>undefined\<close> give the empty string. An epoch
  \<open>e\<close> of at least one second and at most 8640000000000 seconds, the end of the range of
  \<open>Date\<close>, gives the string built from the calendar fields of the instant: year, month,
  day, hour, minute and second, then \<open>.000Z\<close>; the fields are in their ranges and
  \<open>MakeDate\<close>, \<open>MakeDay\<close> and \<open>MakeTime\<close> take them back to \<open>e * 1000\<close> milliseconds. (Each
  field is printed in decimal: \<open>pad_digits\<close>.) A larger epoch raises a \<open>RangeError\<close>. The
  epoch 1704067200 gives \<open>2024-01-01T00:00:00.000Z\<close>.
\<close>

theorem epochToISO_in_range:
  "epochToISO (Val 0) = Inr [] \<and> epochToISO Null = Inr [] \<and> epochToISO Undefined = Inr [] \<and>
   (0 < e \<and> e \<le> 8640000000000 \<longrightarrow>
      epochToISO (Val e) =
        Inr (yearString (YearFromTime (e * 1000)) @ ''-'' @ pad 2 (MonthFromTime (e * 1000) + 1)
             @ ''-'' @ pad 2 (DateFromTime (e * 1000)) @ ''T'' @ pad 2 (HourFromTime (e * 1000))
             @ '':'' @ pad 2 (MinFromTime (e * 1000)) @ '':'' @ pad 2 (SecFromTime (e * 1000))
             @ ''.000Z'') \<and>
      1970 \<le> YearFromTime (e * 1000) \<and>
      0 \<le> MonthFromTime (e * 1000) \<and> MonthFromTime (e * 1000) \<le> 11 \<and>
      1 \<le> DateFromTime (e * 1000) \<and>
      DateFromTime (e * 1000)
        \<le> month_lengths (YearFromTime (e * 1000)) ! nat (MonthFromTime (e * 1000)) \<and>
      0 \<le> HourFromTime (e * 1000) \<and> HourFromTime (e * 1000) < 24 \<and>
      0 \<le> MinFromTime (e * 1000) \<and> MinFromTime (e * 1000) < 60 \<and>
      0 \<le> SecFromTime (e * 1000) \<and> SecFromTime (e * 1000) < 60 \<and>
      MakeDate (MakeDay (YearFromTime (e * 1000)) (MonthFromTime (e * 1000)) (DateFromTime (e * 1000)))
               (MakeTime (HourFromTime (e * 1000)) (MinFromTime (e * 1000)) (SecFromTime (e * 1000)) 0)
        = e * 1000) \<and>
   (8640000000000 < e' \<longrightarrow> epochToISO (Val e') = Inl RangeError) \<and>
   epochToISO (Val 1704067200) = Inr ''2024-01-01T00:00:00.000Z''"
proof (intro conjI impI)
  assume "8640000000000 < e'"
  then show "epochToISO (Val e') = Inl RangeError"
    by (simp add: epochToISO_def toISOString_def)
next
  show "epochToISO (Val 0) = Inr []" "epochToISO Null = Inr []" "epochToISO Undefined = Inr []"
    by (simp_all add: epochToISO_def)
  show "epochToISO (Val 1704067200) = Inr ''2024-01-01T00:00:00.000Z''"
    by code_simp
next
  assume a: "0 < e \<and> e \<le> 8640000000000"
  let ?t = "e * 1000"
  from a have ne: "e \<noteq> 0" and rng: "abs ?t \<le> 8640000000000000" by auto
  show "epochToISO (Val e) =
        Inr (yearString (YearFromTime ?t) @ ''-'' @ pad 2 (MonthFromTime ?t + 1)
             @ ''-'' @ pad 2 (DateFromTime ?t) @ ''T'' @ pad 2 (HourFromTime ?t)
             @ '':'' @ pad 2 (MinFromTime ?t) @ '':'' @ pad 2 (SecFromTime ?t)
             @ ''.000Z'')"
    using epochToISO_Val [OF ne rng] by (simp add: ms_zero pad_3_0)
  show "0 \<le> MonthFromTime ?t" "MonthFromTime ?t \<le> 11" "1 \<le> DateFromTime ?t"
    "DateFromTime ?t \<le> month_lengths (YearFromTime ?t) ! nat (MonthFromTime ?t)"
    using month_fields [of ?t] by simp_all
  show "0 \<le> HourFromTime ?t" "HourFromTime ?t < 24" "0 \<le> MinFromTime ?t" "MinFromTime ?t < 60"
    "0 \<le> SecFromTime ?t" "SecFromTime ?t < 60"
    using time_fields [of ?t] by simp_all
  show "MakeDate (MakeDay (YearFromTime ?t) (MonthFromTime ?t) (DateFromTime ?t))
               (MakeTime (HourFromTime ?t) (MinFromTime ?t) (SecFromTime ?t) 0) = ?t"
    using MakeDate_fields [of ?t] by (simp add: ms_zero)
  show "1970 \<le> YearFromTime ?t"
  proof (rule ccontr)
    assume "\<not> 1970 \<le> YearFromTime ?t"
    then have y: "YearFromTime ?t + 1 \<le> 1970" by simp
    have "DayFromYear (YearFromTime ?t + 1) \<le> DayFromYear 1970"
      using DayFromYear_mono [of "YearFromTime ?t + 1" "nat (1970 - (YearFromTime ?t + 1))"] y by simp
    moreover have "DayFromYear 1970 = 0" by (simp add: DayFromYear_def)
    ultimately have "DayFromYear (YearFromTime ?t) + DaysInYear (YearFromTime ?t) \<le> 0"
      unfolding DayFromYear_next by simp
    with year_fields [of ?t] have "Day ?t < 0" by simp
    moreover have "0 \<le> Day ?t"
      unfolding Day_def msPerDay_def by (rule pos_imp_zdiv_nonneg_iff [THEN iffD2]) (use a in auto)
    ultimately show False by simp
  qed
qed

text \<open>
  Claim C9 as stated fails beyond the range of \<open>Date\<close>: for the positive epoch
  8640000000001 the time value is not valid and \<open>toISOString\<close> raises a \<open>RangeError\<close>.
\<close>

theorem epochToISO_out_of_range: "epochToISO (Val 8640000000001) = Inl RangeError"
  by (simp add: epochToISO_def toISOString_def)

theorem epochToISO_in_range_witness:
  "(0::int) < 1700000000 \<and> (1700000000::int) \<le> 8640000000000 \<and>
   epochToISO (Val 1700000000) = Inr ''2023-11-14T22:13:20.000Z'' \<and>
   YearFromTime (1700000000 * 1000) = 2023 \<and> MonthFromTime (1700000000 * 1000) = 10 \<and>
   DateFromTime (1700000000 * 1000) = 14 \<and>
   MakeDate (MakeDay 2023 10 14) (MakeTime 22 13 20 0) = 1700000000 * 1000 \<and>
   (8640000000000::int) < 9000000000000 \<and> epochToISO (Val 9000000000000) = Inl RangeError"
proof -
  have y: "YearFromTime (1700000000 * 1000) = 2023" by code_simp
  have m: "MonthFromTime (1700000000 * 1000) = 10" by code_simp
  have d: "DateFromTime (1700000000 * 1000) = 14" by code_simp
  have h: "HourFromTime (1700000000 * 1000) = 22" by code_simp
  have mi: "MinFromTime (1700000000 * 1000) = 13" by code_simp
  have s: "SecFromTime (1700000000 * 1000) = 20" by code_simp
  have str: "yearString 2023 @ ''-'' @ pad 2 (10 + 1) @ ''-'' @ pad 2 14 @ ''T'' @ pad 2 22
             @ '':'' @ pad 2 13 @ '':'' @ pad 2 20 @ ''.000Z'' = ''2023-11-14T22:13:20.000Z''"
    by code_simp
  show ?thesis
    using epochToISO_in_range [of 1700000000 9000000000000] unfolding y m d h mi s str by simp
qed

section \<open>Properties of the schedule endpoint\<close>

subsection \<open>The global rate limiter\<close>

lemma rateLimitedFetch_last:
  "w_lastFR24Request (snd (rateLimitedFetch up url w)) =
     (if max 0 (MIN_REQUEST_INTERVAL - (w_clock w - w_lastFR24Request w)) > 0
      then w_clock w + max 0 (MIN_REQUEST_INTERVAL - (w_clock w - w_lastFR24Request w))
           + us_timer_drift (up (length (w_dispatched w)) url)
      else w_clock w)"
  by (simp add: rateLimitedFetch_def Let_def)

lemma rateLimitedFetch_dispatched:
  "w_dispatched (snd (rateLimitedFetch up url w)) =
     w_dispatched w @ [(w_lastFR24Request (snd (rateLimitedFetch up url w)), url)]"
  by (simp add: rateLimitedFetch_def Let_def)

lemma rateLimitedFetch_cache:
  "w_cache (snd (rateLimitedFetch up url w)) = w_cache w \<and>
   w_lookups (snd (rateLimitedFetch up url w)) = w_lookups w"
  by (simp add: rateLimitedFetch_def Let_def)

lemma rateLimitedFetch_clock:
  "w_lastFR24Request (snd (rateLimitedFetch up url w)) \<le> w_clock (snd (rateLimitedFetch up url w))"
  by (auto simp: rateLimitedFetch_def Let_def max_def)

text \<open>
  The new \<open>lastFR24Request\<close> is at least \<open>MIN_REQUEST_INTERVAL\<close> after the old one, less
  the time by which the timer was early.
\<close>

lemma rateLimitedFetch_gap:
  "w_lastFR24Request (snd (rateLimitedFetch up url w)) - w_lastFR24Request w \<ge>
     MIN_REQUEST_INTERVAL + min 0 (us_timer_drift (up (length (w_dispatched w)) url))"
  by (auto simp: rateLimitedFetch_last MIN_REQUEST_INTERVAL_def max_def min_def)

lemma spaced_snoc:
  "spaced gap (ds @ [d]) = (spaced gap ds \<and> (ds \<noteq> [] \<longrightarrow> d - last ds \<ge> gap))"
  by (induction gap ds rule: spaced.induct) auto

lemma limiter_ok_fetch:
  "punctual up \<Longrightarrow> limiter_ok w \<Longrightarrow> limiter_ok (snd (rateLimitedFetch up url w))"
proof -
  assume p: "punctual up" and ok: "limiter_ok w"
  let ?w = "snd (rateLimitedFetch up url w)"
  have "min 0 (us_timer_drift (up (length (w_dispatched w)) url)) = 0"
    using p by (simp add: punctual_def min_def)
  then have gap: "w_lastFR24Request ?w - w_lastFR24Request w \<ge> MIN_REQUEST_INTERVAL"
    using rateLimitedFetch_gap [where up = up and url = url and w = w] by simp
  have old: "\<forall>d\<in>set (w_dispatched w). fst d \<le> w_lastFR24Request w"
    using ok by (simp add: limiter_ok_def list_all_iff)
  have lst: "w_dispatched w \<noteq> [] \<Longrightarrow> last (map fst (w_dispatched w)) \<le> w_lastFR24Request w"
    using old by (simp add: last_map)
  have "spaced MIN_REQUEST_INTERVAL (map fst (w_dispatched ?w))"
    using ok gap lst
    by (subst rateLimitedFetch_dispatched) (auto simp: spaced_snoc limiter_ok_def)
  moreover have "list_all (\<lambda>d. fst d \<le> w_lastFR24Request ?w) (w_dispatched ?w)"
    using old gap
    by (subst rateLimitedFetch_dispatched) (auto simp: list_all_iff MIN_REQUEST_INTERVAL_def)
  ultimately show ?thesis by (simp add: limiter_ok_def)
qed

lemma limiter_ok_idle: "limiter_ok w \<Longrightarrow> limiter_ok (w\<lparr>w_clock := c\<rparr>)"
  by (simp add: limiter_ok_def)

lemma limiter_ok_calls:
  "punctual up \<Longrightarrow> limiter_ok w \<Longrightarrow> limiter_ok (rateLimitedFetch_calls up calls w)"
  by (induction up calls w rule: rateLimitedFetch_calls.induct)
     (simp_all add: limiter_ok_fetch limiter_ok_idle)

lemma fetchOnePage_world:
  "snd (fetchOnePage up hub dir ts page w) = snd (rateLimitedFetch up (FR24_url hub dir ts page) w)"
  by (simp add: fetchOnePage_def split: prod.splits sum.splits http_body.splits option.splits)

lemma limiter_ok_fetchOnePage:
  "punctual up \<Longrightarrow> limiter_ok w \<Longrightarrow> limiter_ok (snd (fetchOnePage up hub dir ts page w))"
  by (simp add: fetchOnePage_world limiter_ok_fetch)

lemma limiter_ok_agg_loop:
  "punctual up \<Longrightarrow> limiter_ok w \<Longrightarrow>
     limiter_ok (snd (agg_loop up hub dir ts acc pageNum totalPages fetched w))"
proof (induction up hub dir ts acc pageNum totalPages fetched w rule: agg_loop.induct)
  case (1 up hub dir ts allUAFlights pageNum totalPages totalFetched w)
  note p = "1.prems"(1) and ok = "1.prems"(2)
  obtain r w1 where f: "fetchOnePage up hub dir ts pageNum w = (r, w1)"
    by (cases "fetchOnePage up hub dir ts pageNum w")
  have okf: "limiter_ok w1"
    using limiter_ok_fetchOnePage [OF p ok, of hub dir ts pageNum] f by simp
  show ?case
  proof (cases "pageNum \<le> totalPages \<and> pageNum \<le> MAX_PAGES")
    case False
    then show ?thesis using ok by (subst agg_loop.simps) auto
  next
    case True
    show ?thesis
    proof (cases r)
      case (Inl e)
      then show ?thesis using True okf f by (subst agg_loop.simps) simp
    next
      case (Inr sched)
      show ?thesis
      proof (cases "sp_data sched")
        case None
        then show ?thesis using True okf f Inr by (subst agg_loop.simps) simp
      next
        case (Some entries)
        show ?thesis
        proof (cases entries)
          case Nil
          then show ?thesis using True okf f Inr Some by (subst agg_loop.simps) simp
        next
          case (Cons entry rest)
          obtain pastDay fls where sc:
            "scan_page dir (map_option (\<lambda>t. t + 86400) ts) (entry # rest) allUAFlights = (pastDay, fls)"
            by (cases "scan_page dir (map_option (\<lambda>t. t + 86400) ts) (entry # rest) allUAFlights")
          show ?thesis
          proof (cases pastDay)
            case True': True
            have "agg_loop up hub dir ts allUAFlights pageNum totalPages totalFetched w =
                    (Inr (fls, pageNum, total_or_1 (sp_page_total sched),
                          totalFetched + length (entry # rest)), w1)"
              using True f Inr Some Cons sc True'
              by (subst agg_loop.simps) (simp del: scan_page.simps)
            then show ?thesis using okf by simp
          next
            case False
            have step: "agg_loop up hub dir ts allUAFlights pageNum totalPages totalFetched w =
                    agg_loop up hub dir ts fls (pageNum + 1) (total_or_1 (sp_page_total sched))
                      (totalFetched + length (entry # rest)) w1"
              using True f Inr Some Cons sc False
              by (subst agg_loop.simps) (simp del: scan_page.simps)
            have "limiter_ok (snd (agg_loop up hub dir ts fls (pageNum + 1)
                      (total_or_1 (sp_page_total sched))
                      (totalFetched + length (entry # rest)) w1))"
              using "1.IH" [OF True f [symmetric] Inr Some Cons sc [symmetric] _ p okf] False by simp
            then show ?thesis unfolding step .
          qed
        qed
      qed
    qed
  qed
qed

lemma limiter_ok_cache: "limiter_ok (w\<lparr>w_cache := c\<rparr>) = limiter_ok w"
  by (simp add: limiter_ok_def)

lemma limiter_ok_lookups: "limiter_ok (w\<lparr>w_lookups := l\<rparr>) = limiter_ok w"
  by (simp add: limiter_ok_def)

lemma limiter_ok_cacheGet: "limiter_ok w \<Longrightarrow> limiter_ok (snd (world_cacheGet key w))"
  by (simp add: world_cacheGet_def case_prod_unfold limiter_ok_def Let_def)

lemma limiter_ok_cacheSet: "limiter_ok w \<Longrightarrow> limiter_ok (world_cacheSet key d ttl w)"
  by (simp add: world_cacheSet_def limiter_ok_def)

lemma limiter_ok_single_page:
  "punctual up \<Longrightarrow> limiter_ok w \<Longrightarrow> limiter_ok (snd (single_page up hub dir ts ttl page w))"
proof -
  assume p: "punctual up" and ok: "limiter_ok w"
  let ?key = "Sched_key hub dir ts (total_or_1 (parseInt page))"
  obtain c w1 where g: "world_cacheGet ?key w = (c, w1)" by (cases "world_cacheGet ?key w")
  have ok1: "limiter_ok w1" using limiter_ok_cacheGet [OF ok, of ?key] g by simp
  obtain r w2 where f: "fetchOnePage up hub dir ts (total_or_1 (parseInt page)) w1 = (r, w2)"
    by (cases "fetchOnePage up hub dir ts (total_or_1 (parseInt page)) w1")
  have ok2: "limiter_ok w2"
    using limiter_ok_fetchOnePage [OF p ok1, of hub dir ts "total_or_1 (parseInt page)"] f by simp
  show ?thesis
    using ok1 ok2 by (simp add: single_page_def Let_def g f limiter_ok_cacheSet
        split: option.splits sum.splits)
qed

lemma limiter_ok_aggregation:
  "punctual up \<Longrightarrow> limiter_ok w \<Longrightarrow> limiter_ok (snd (aggregation up hub dir ts ttl w))"
proof -
  assume p: "punctual up" and ok: "limiter_ok w"
  let ?key = "Agg_key hub dir ts"
  obtain c w1 where g: "world_cacheGet ?key w = (c, w1)" by (cases "world_cacheGet ?key w")
  have ok1: "limiter_ok w1" using limiter_ok_cacheGet [OF ok, of ?key] g by simp
  obtain r w2 where f: "agg_loop up hub dir ts [] 1 1 0 w1 = (r, w2)"
    by (cases "agg_loop up hub dir ts [] 1 1 0 w1")
  have ok2: "limiter_ok w2"
    using limiter_ok_agg_loop [OF p ok1, of hub dir ts "[]" 1 1 0] f by simp
  show ?thesis
    using ok1 ok2 by (simp add: aggregation_def Let_def g f limiter_ok_cacheSet
        split: option.splits sum.splits prod.splits)
qed

text \<open>
  Every upstream request of the handler goes through \<open>rateLimitedFetch\<close>, so requests
  handled one after the other keep the dispatch times spaced when no timer is early.
\<close>

lemma limiter_ok_sched_handler:
  "punctual up \<Longrightarrow> limiter_ok w \<Longrightarrow> limiter_ok (snd (sched_handler up q w))"
  by (simp add: sched_handler_def Let_def limiter_ok_single_page limiter_ok_aggregation
      split: option.splits)

text \<open>
  Claim C7, as amended. One acquire: with \<open>wait = max(0, MIN_REQUEST_INTERVAL - (now -
  lastFR24Request))\<close> and \<open>MIN_REQUEST_INTERVAL\<close> = 2000, the request is dispatched at once
  when \<open>wait\<close> is 0 and otherwise when the timer of \<open>wait\<close> milliseconds resumes the call,
  without a second look at the clock; \<open>lastFR24Request\<close> is set to the time of that
  dispatch, which is at least \<open>MIN_REQUEST_INTERVAL\<close> after its old value, less the time by
  which the timer was early. Acquires made one after the other, from a state in which
  nothing has been dispatched and with any idle time before each: when no timer resumes
  its call early, consecutive dispatch times are at least \<open>MIN_REQUEST_INTERVAL\<close> apart.
\<close>

theorem rateLimitedFetch_min_interval_punctual:
  "MIN_REQUEST_INTERVAL = 2000 \<and>
   w_lastFR24Request (snd (rateLimitedFetch up url w)) =
     (if max 0 (MIN_REQUEST_INTERVAL - (w_clock w - w_lastFR24Request w)) > 0
      then w_clock w + max 0 (MIN_REQUEST_INTERVAL - (w_clock w - w_lastFR24Request w))
           + us_timer_drift (up (length (w_dispatched w)) url)
      else w_clock w) \<and>
   w_dispatched (snd (rateLimitedFetch up url w)) =
     w_dispatched w @ [(w_lastFR24Request (snd (rateLimitedFetch up url w)), url)] \<and>
   w_lastFR24Request (snd (rateLimitedFetch up url w)) - w_lastFR24Request w \<ge>
     MIN_REQUEST_INTERVAL + min 0 (us_timer_drift (up (length (w_dispatched w)) url)) \<and>
   (punctual up' \<and> w_dispatched w0 = [] \<longrightarrow>
      spaced MIN_REQUEST_INTERVAL (map fst (w_dispatched (rateLimitedFetch_calls up' calls w0))))"
proof (intro conjI impI)
  show "MIN_REQUEST_INTERVAL = 2000" by (simp add: MIN_REQUEST_INTERVAL_def)
  show "w_lastFR24Request (snd (rateLimitedFetch up url w)) =
     (if max 0 (MIN_REQUEST_INTERVAL - (w_clock w - w_lastFR24Request w)) > 0
      then w_clock w + max 0 (MIN_REQUEST_INTERVAL - (w_clock w - w_lastFR24Request w))
           + us_timer_drift (up (length (w_dispatched w)) url)
      else w_clock w)" by (rule rateLimitedFetch_last)
  show "w_dispatched (snd (rateLimitedFetch up url w)) =
     w_dispatched w @ [(w_lastFR24Request (snd (rateLimitedFetch up url w)), url)]"
    by (rule rateLimitedFetch_dispatched)
  show "w_lastFR24Request (snd (rateLimitedFetch up url w)) - w_lastFR24Request w \<ge>
     MIN_REQUEST_INTERVAL + min 0 (us_timer_drift (up (length (w_dispatched w)) url))"
    by (rule rateLimitedFetch_gap)
next
  assume a: "punctual up' \<and> w_dispatched w0 = []"
  then have "limiter_ok w0" by (simp add: limiter_ok_def)
  then have "limiter_ok (rateLimitedFetch_calls up' calls w0)"
    using a by (simp add: limiter_ok_calls)
  then show "spaced MIN_REQUEST_INTERVAL (map fst (w_dispatched (rateLimitedFetch_calls up' calls w0)))"
    by (simp add: limiter_ok_def)
qed

lemma punctual_upstream_of: "punctual (upstream_of pages)"
  by (simp add: punctual_def upstream_of_def split: fr24_url.splits)

theorem rateLimitedFetch_min_interval_punctual_witness:
  "punctual (upstream_of [page1_ex]) \<and> w_dispatched world_ex = [] \<and>
   map fst (w_dispatched (rateLimitedFetch_calls (upstream_of [page1_ex])
      [(0, url_ex 1), (0, url_ex 2), (5000, url_ex 3)] world_ex))
     = [1704200000000, 1704200002000, 1704200007100] \<and>
   spaced MIN_REQUEST_INTERVAL [1704200000000, 1704200002000, 1704200007100]"
proof -
  have d: "map fst (w_dispatched (rateLimitedFetch_calls (upstream_of [page1_ex])
      [(0, url_ex 1), (0, url_ex 2), (5000, url_ex 3)] world_ex))
     = [1704200000000, 1704200002000, 1704200007100]"
    by (simp add: rateLimitedFetch_def world_ex_def upstream_of_def url_ex_def
        MIN_REQUEST_INTERVAL_def Let_def)
  have e: "w_dispatched world_ex = []" by (simp add: world_ex_def)
  from rateLimitedFetch_min_interval_punctual [of "upstream_of [page1_ex]" "url_ex 1" world_ex
      "upstream_of [page1_ex]" world_ex "[(0, url_ex 1), (0, url_ex 2), (5000, url_ex 3)]"]
    e d punctual_upstream_of [of "[page1_ex]"]
  show ?thesis by simp
qed

text \<open>
  Claim C7 as stated fails when a timer resumes its call early by the clock of
  \<open>Date.now()\<close>. Two acquires in a row, the first request taking 100 ms: the second
  acquire waits on a timer of 1900 ms; when that timer fires one millisecond early the
  second request is dispatched 1999 ms after the first.
\<close>

theorem rateLimitedFetch_early_timer:
  "w_dispatched world_ex = [] \<and>
   us_timer_drift (upstream_early [page1_ex] 1 (url_ex 2)) = - 1 \<and>
   map fst (w_dispatched (rateLimitedFetch_calls (upstream_early [page1_ex])
      [(0, url_ex 1), (0, url_ex 2)] world_ex))
     = [1704200000000, 1704200001999] \<and>
   \<not> spaced MIN_REQUEST_INTERVAL [1704200000000, 1704200001999]"
  by (simp add: rateLimitedFetch_def world_ex_def upstream_early_def upstream_of_def url_ex_def
      MIN_REQUEST_INTERVAL_def Let_def)

subsection \<open>Validation\<close>

lemma on_error_status: "res_status (on_error e) = 504 \<or> res_status (on_error e) = 500"
  by (simp add: on_error_def)

lemma world_cacheGet_lookups: "w_lookups (snd (world_cacheGet key w)) = w_lookups w @ [key]"
  by (simp add: world_cacheGet_def case_prod_unfold Let_def)

lemma fetchOnePage_lookups:
  "w_lookups (snd (fetchOnePage up hub dir ts page w)) = w_lookups w"
  by (simp add: fetchOnePage_world rateLimitedFetch_cache)

lemma agg_loop_lookups:
  "w_lookups (snd (agg_loop up hub dir ts acc pageNum totalPages fetched w)) = w_lookups w"
proof (induction up hub dir ts acc pageNum totalPages fetched w rule: agg_loop.induct)
  case (1 up hub dir ts allUAFlights pageNum totalPages totalFetched w)
  obtain r w1 where f: "fetchOnePage up hub dir ts pageNum w = (r, w1)"
    by (cases "fetchOnePage up hub dir ts pageNum w")
  have l1: "w_lookups w1 = w_lookups w"
    using fetchOnePage_lookups [of up hub dir ts pageNum w] f by simp
  show ?case
  proof (cases "pageNum \<le> totalPages \<and> pageNum \<le> MAX_PAGES")
    case False
    then show ?thesis by (subst agg_loop.simps) auto
  next
    case True
    show ?thesis
    proof (cases r)
      case (Inl e)
      then show ?thesis using True l1 f by (subst agg_loop.simps) simp
    next
      case (Inr sched)
      show ?thesis
      proof (cases "sp_data sched")
        case None
        then show ?thesis using True l1 f Inr by (subst agg_loop.simps) simp
      next
        case (Some entries)
        show ?thesis
        proof (cases entries)
          case Nil
          then show ?thesis using True l1 f Inr Some by (subst agg_loop.simps) simp
        next
          case (Cons entry rest)
          obtain pastDay fls where sc:
            "scan_page dir (map_option (\<lambda>t. t + 86400) ts) (entry # rest) allUAFlights = (pastDay, fls)"
            by (cases "scan_page dir (map_option (\<lambda>t. t + 86400) ts) (entry # rest) allUAFlights")
          show ?thesis
          proof (cases pastDay)
            case True': True
            have "agg_loop up hub dir ts allUAFlights pageNum totalPages totalFetched w =
                    (Inr (fls, pageNum, total_or_1 (sp_page_total sched),
                          totalFetched + length (entry # rest)), w1)"
              using True f Inr Some Cons sc True'
              by (subst agg_loop.simps) (simp del: scan_page.simps)
            then show ?thesis using l1 by simp
          next
            case False
            have step: "agg_loop up hub dir ts allUAFlights pageNum totalPages totalFetched w =
                    agg_loop up hub dir ts fls (pageNum + 1) (total_or_1 (sp_page_total sched))
                      (totalFetched + length (entry # rest)) w1"
              using True f Inr Some Cons sc False
              by (subst agg_loop.simps) (simp del: scan_page.simps)
            have "w_lookups (snd (agg_loop up hub dir ts fls (pageNum + 1)
                      (total_or_1 (sp_page_total sched))
                      (totalFetched + length (entry # rest)) w1)) = w_lookups w1"
              using "1.IH" [OF True f [symmetric] Inr Some Cons sc [symmetric]] False by simp
            then show ?thesis unfolding step using l1 by simp
          qed
        qed
      qed
    qed
  qed
qed

lemma single_page_served:
  "res_status (fst (single_page up hub dir ts ttl page w)) \<in> {200, 500, 504} \<and>
   w_lookups (snd (single_page up hub dir ts ttl page w))
     = w_lookups w @ [Sched_key hub dir ts (total_or_1 (parseInt page))]"
proof -
  let ?key = "Sched_key hub dir ts (total_or_1 (parseInt page))"
  obtain c w1 where g: "world_cacheGet ?key w = (c, w1)" by (cases "world_cacheGet ?key w")
  have l1: "w_lookups w1 = w_lookups w @ [?key]"
    using world_cacheGet_lookups [of ?key w] g by simp
  obtain r w2 where f: "fetchOnePage up hub dir ts (total_or_1 (parseInt page)) w1 = (r, w2)"
    by (cases "fetchOnePage up hub dir ts (total_or_1 (parseInt page)) w1")
  have l2: "w_lookups w2 = w_lookups w1"
    using fetchOnePage_lookups [of up hub dir ts "total_or_1 (parseInt page)" w1] f by simp
  show ?thesis
    using l1 l2 on_error_status
    by (auto simp: single_page_def Let_def g f ok_response_def world_cacheSet_def
        split: option.splits sum.splits)
qed

lemma aggregation_served:
  "res_status (fst (aggregation up hub dir ts ttl w)) \<in> {200, 500, 504} \<and>
   w_lookups (snd (aggregation up hub dir ts ttl w)) = w_lookups w @ [Agg_key hub dir ts]"
proof -
  let ?key = "Agg_key hub dir ts"
  obtain c w1 where g: "world_cacheGet ?key w = (c, w1)" by (cases "world_cacheGet ?key w")
  have l1: "w_lookups w1 = w_lookups w @ [?key]"
    using world_cacheGet_lookups [of ?key w] g by simp
  obtain r w2 where f: "agg_loop up hub dir ts [] 1 1 0 w1 = (r, w2)"
    by (cases "agg_loop up hub dir ts [] 1 1 0 w1")
  have l2: "w_lookups w2 = w_lookups w1"
    using agg_loop_lookups [of up hub dir ts "[]" 1 1 0 w1] f by simp
  show ?thesis
    using l1 l2 on_error_status
    by (auto simp: aggregation_def Let_def g f ok_response_def world_cacheSet_def
        split: option.splits sum.splits prod.splits)
qed

lemma sched_handler_served:
  assumes "\<not> missing (q_hub q)" and "\<not> missing (q_timestamp q)"
    and "query_dir q = ''departures'' \<or> query_dir q = ''arrivals''"
  shows "res_status (fst (sched_handler up q w)) \<in> {200, 500, 504} \<and>
         length (w_lookups (snd (sched_handler up q w))) = Suc (length (w_lookups w))"
  using assms single_page_served aggregation_served
  by (auto simp: sched_handler_def query_dir_def Let_def split: option.splits)

text \<open>
  Claim C4, as amended. A request without \<open>hub\<close> or without \<open>timestamp\<close> (missing or empty),
  or with a \<open>dir\<close> that is neither \<open>departures\<close> nor \<open>arrivals\<close>, is answered with status
  400, and the state is left as it was: no cache lookup is made and no request is
  dispatched. Every other request, whatever its \<open>timestamp\<close> parses to, makes its cache
  lookup and is answered with 200, 500 or 504.
\<close>

theorem sched_handler_rejects:
  "(missing (q_hub q) \<or> missing (q_timestamp q) \<or>
    (q_dir q \<noteq> None \<and> the (q_dir q) \<noteq> ''departures'' \<and> the (q_dir q) \<noteq> ''arrivals'') \<longrightarrow>
      res_status (fst (sched_handler up q w)) = 400 \<and> snd (sched_handler up q w) = w \<and>
      w_lookups (snd (sched_handler up q w)) = w_lookups w \<and>
      w_dispatched (snd (sched_handler up q w)) = w_dispatched w) \<and>
   (\<not> missing (q_hub q') \<and> \<not> missing (q_timestamp q') \<and>
    (query_dir q' = ''departures'' \<or> query_dir q' = ''arrivals'') \<longrightarrow>
      res_status (fst (sched_handler up' q' w')) \<in> {200, 500, 504} \<and>
      length (w_lookups (snd (sched_handler up' q' w'))) = Suc (length (w_lookups w')))"
proof (intro conjI impI)
  assume a: "missing (q_hub q) \<or> missing (q_timestamp q) \<or>
    (q_dir q \<noteq> None \<and> the (q_dir q) \<noteq> ''departures'' \<and> the (q_dir q) \<noteq> ''arrivals'')"
  then have r: "res_status (fst (sched_handler up q w)) = 400 \<and> snd (sched_handler up q w) = w"
    by (auto simp: sched_handler_def Let_def split: option.splits)
  then show "res_status (fst (sched_handler up q w)) = 400" "snd (sched_handler up q w) = w"
    "w_lookups (snd (sched_handler up q w)) = w_lookups w"
    "w_dispatched (snd (sched_handler up q w)) = w_dispatched w"
    by simp_all
next
  assume b: "\<not> missing (q_hub q') \<and> \<not> missing (q_timestamp q') \<and>
    (query_dir q' = ''departures'' \<or> query_dir q' = ''arrivals'')"
  then have "res_status (fst (sched_handler up' q' w')) \<in> {200, 500, 504} \<and>
         length (w_lookups (snd (sched_handler up' q' w'))) = Suc (length (w_lookups w'))"
    using sched_handler_served [of q' up' w'] by blast
  then show "res_status (fst (sched_handler up' q' w')) \<in> {200, 500, 504}"
    "length (w_lookups (snd (sched_handler up' q' w'))) = Suc (length (w_lookups w'))"
    by simp_all
qed

theorem sched_handler_rejects_witness:
  "missing (q_timestamp (query_ex [])) \<and>
   res_status (fst (sched_handler (upstream_of [page1_ex]) (query_ex []) world_ex)) = 400 \<and>
   snd (sched_handler (upstream_of [page1_ex]) (query_ex []) world_ex) = world_ex \<and>
   missing (q_hub ((query_ex ''1704067200'')\<lparr>q_hub := None\<rparr>)) \<and>
   res_status (fst (sched_handler (upstream_of [page1_ex])
      ((query_ex ''1704067200'')\<lparr>q_hub := None\<rparr>) world_ex)) = 400 \<and>
   q_dir ((query_ex ''1704067200'')\<lparr>q_dir := Some ''sideways''\<rparr>) \<noteq> None \<and>
   res_status (fst (sched_handler (upstream_of [page1_ex])
      ((query_ex ''1704067200'')\<lparr>q_dir := Some ''sideways''\<rparr>) world_ex)) = 400 \<and>
   \<not> missing (q_hub (query_ex ''1704067200'')) \<and> \<not> missing (q_timestamp (query_ex ''1704067200'')) \<and>
   query_dir (query_ex ''1704067200'') = ''departures'' \<and>
   res_status (fst (sched_handler (upstream_of [page1_ex]) (query_ex ''1704067200'') world_ex))
     \<in> {200, 500, 504} \<and>
   length (w_lookups (snd (sched_handler (upstream_of [page1_ex]) (query_ex ''1704067200'') world_ex)))
     = 1"
  using sched_handler_rejects [of "query_ex []" "upstream_of [page1_ex]" world_ex
      "query_ex ''1704067200''" "upstream_of [page1_ex]" world_ex]
    sched_handler_rejects [of "(query_ex ''1704067200'')\<lparr>q_hub := None\<rparr>" "upstream_of [page1_ex]"
      world_ex "query_ex ''1704067200''" "upstream_of [page1_ex]" world_ex]
    sched_handler_rejects [of "(query_ex ''1704067200'')\<lparr>q_dir := Some ''sideways''\<rparr>"
      "upstream_of [page1_ex]" world_ex "query_ex ''1704067200''" "upstream_of [page1_ex]" world_ex]
  by (simp add: missing_def query_ex_def query_dir_def world_ex_def str_eq_Nil)

lemma parseInt_abc: "parseInt (str ''abc'') = None"
  by (simp add: parseInt_def startsWith_def isWhiteSpace_def isRadixDigit_def digitValue_def str_def)

lemma sched_handler_abc:
  "sched_handler up (query_ex ''abc'') w = aggregation up ''ORD'' ''departures'' None 60000 w"
  by (simp add: sched_handler_def query_ex_def missing_def parseInt_abc str_eq_Nil)

text \<open>
  Claim C4 as stated fails for a timestamp that is not an integer: \<open>parseInt('abc')\<close> is
  \<open>NaN\<close>, nothing checks it, and the request with \<open>hub=ORD\<close>, \<open>dir=departures\<close> and
  \<open>timestamp=abc\<close> is served: one cache lookup, three upstream requests and status 200.
\<close>

theorem sched_handler_accepts_bad_timestamp:
  "parseInt (str ''abc'') = None \<and>
   res_status (fst (sched_handler (upstream_of [page1_ex, page2_ex, page3_ex]) (query_ex ''abc'') world_ex))
     = 200 \<and>
   w_lookups (snd (sched_handler (upstream_of [page1_ex, page2_ex, page3_ex]) (query_ex ''abc'') world_ex))
     = [Agg_key ''ORD'' ''departures'' None] \<and>
   map snd (w_dispatched
      (snd (sched_handler (upstream_of [page1_ex, page2_ex, page3_ex]) (query_ex ''abc'') world_ex)))
     = [FR24_url ''ORD'' ''departures'' None 1, FR24_url ''ORD'' ''departures'' None 2,
        FR24_url ''ORD'' ''departures'' None 3]"
  unfolding sched_handler_abc
  by (simp add: parseInt_abc aggregation_def world_cacheGet_def cacheGet_def Map_get_def world_ex_def
      agg_loop.simps fetchOnePage_def rateLimitedFetch_def upstream_of_def page1_ex_def
      page2_ex_def page3_ex_def flight_ex_def MAX_PAGES_def MIN_REQUEST_INTERVAL_def
      total_or_1_def truthy_def past_day_def flightTime_def ok_response_def world_cacheSet_def
      Let_def)

subsection \<open>Aggregation\<close>

lemma scan_page_quiet:
  "list_all (\<lambda>x. \<not> crossing dir dayEnd x) entries \<Longrightarrow>
   scan_page dir dayEnd entries acc = (False, acc @ ua_flights entries)"
  by (induction dir dayEnd entries acc rule: scan_page.induct)
     (auto simp: crossing_def split: option.splits)

lemma scan_page_crossing:
  "list_all (\<lambda>x. \<not> crossing dir dayEnd x) pre \<Longrightarrow> crossing dir dayEnd e \<Longrightarrow>
   scan_page dir dayEnd (pre @ e # post) acc = (True, acc @ ua_flights pre)"
  by (induction dir dayEnd pre acc rule: scan_page.induct)
     (auto simp: crossing_def split: option.splits)

lemma fetchOnePage_ok:
  "us_result (up (length (w_dispatched w)) (FR24_url hub dir ts page))
     = Http_response True st (Json (Some sched)) \<Longrightarrow>
   fetchOnePage up hub dir ts page w
     = (Inr sched, snd (rateLimitedFetch up (FR24_url hub dir ts page) w))"
  by (simp add: fetchOnePage_def rateLimitedFetch_def Let_def)

lemma agg_loop_crossing:
  assumes "pageNum \<le> totalPages" and "pageNum \<le> MAX_PAGES"
    and "us_result (up (length (w_dispatched w)) (FR24_url hub dir ts pageNum))
           = Http_response True st (Json (Some sched))"
    and "sp_data sched = Some (pre @ e # post)"
    and "list_all (\<lambda>x. \<not> crossing dir (map_option (\<lambda>t. t + 86400) ts) x) pre"
    and "crossing dir (map_option (\<lambda>t. t + 86400) ts) e"
  shows "agg_loop up hub dir ts acc pageNum totalPages fetched w =
           (Inr (acc @ ua_flights pre, pageNum, total_or_1 (sp_page_total sched),
                 fetched + length (pre @ e # post)),
            snd (rateLimitedFetch up (FR24_url hub dir ts pageNum) w))"
proof -
  obtain x xs where d: "pre @ e # post = x # xs" by (cases pre) auto
  have sc: "scan_page dir (map_option (\<lambda>t. t + 86400) ts) (x # xs) acc = (True, acc @ ua_flights pre)"
    using scan_page_crossing [OF assms(5,6), of post acc] unfolding d .
  have f: "fetchOnePage up hub dir ts pageNum w
             = (Inr sched, snd (rateLimitedFetch up (FR24_url hub dir ts pageNum) w))"
    using assms(3) by (rule fetchOnePage_ok)
  show ?thesis
    by (subst agg_loop.simps) (simp add: assms(1,2,4) f d sc del: scan_page.simps)
qed

lemma agg_loop_quiet:
  assumes "pageNum \<le> totalPages" and "pageNum \<le> MAX_PAGES"
    and "us_result (up (length (w_dispatched w)) (FR24_url hub dir ts pageNum))
           = Http_response True st (Json (Some sched))"
    and "sp_data sched = Some entries" and "entries \<noteq> []"
    and "list_all (\<lambda>x. \<not> crossing dir (map_option (\<lambda>t. t + 86400) ts) x) entries"
  shows "agg_loop up hub dir ts acc pageNum totalPages fetched w =
           agg_loop up hub dir ts (acc @ ua_flights entries) (pageNum + 1)
             (total_or_1 (sp_page_total sched)) (fetched + length entries)
             (snd (rateLimitedFetch up (FR24_url hub dir ts pageNum) w))"
proof -
  obtain x xs where d: "entries = x # xs" using assms(5) by (cases entries) auto
  have sc: "scan_page dir (map_option (\<lambda>t. t + 86400) ts) (x # xs) acc = (False, acc @ ua_flights entries)"
    using scan_page_quiet [OF assms(6), of acc] unfolding d .
  have f: "fetchOnePage up hub dir ts pageNum w
             = (Inr sched, snd (rateLimitedFetch up (FR24_url hub dir ts pageNum) w))"
    using assms(3) by (rule fetchOnePage_ok)
  show ?thesis
    by (subst agg_loop.simps) (simp add: assms(1,2,4) f d sc del: scan_page.simps)
qed

lemma world_cacheGet_miss:
  "fst (cacheGet (w_cache w) key (w_clock w)) = None \<Longrightarrow>
   world_cacheGet key w =
     (None, w\<lparr>w_cache := snd (cacheGet (w_cache w) key (w_clock w)),
               w_lookups := w_lookups w @ [key]\<rparr>)"
  by (simp add: world_cacheGet_def case_prod_unfold)

lemma rateLimitedFetch_urls:
  "map snd (w_dispatched (snd (rateLimitedFetch up url w))) = map snd (w_dispatched w) @ [url]"
  by (subst rateLimitedFetch_dispatched) simp

lemma rateLimitedFetch_count:
  "length (w_dispatched (snd (rateLimitedFetch up url w))) = Suc (length (w_dispatched w))"
  by (subst rateLimitedFetch_dispatched) simp

lemma aggregation_two_pages:
  assumes miss: "fst (cacheGet (w_cache w) (Agg_key hub dir ts) (w_clock w)) = None"
    and r1: "us_result (up (length (w_dispatched w)) (FR24_url hub dir ts 1))
               = Http_response True st1 (Json (Some page1))"
    and r2: "us_result (up (Suc (length (w_dispatched w))) (FR24_url hub dir ts 2))
               = Http_response True st2 (Json (Some page2))"
    and p1: "sp_data page1 = Some entries1" "entries1 \<noteq> []"
      "list_all (\<lambda>x. \<not> crossing dir (map_option (\<lambda>t. t + 86400) ts) x) entries1"
      "2 \<le> total_or_1 (sp_page_total page1)"
    and p2: "sp_data page2 = Some (pre2 @ e2 # post2)"
      "list_all (\<lambda>x. \<not> crossing dir (map_option (\<lambda>t. t + 86400) ts) x) pre2"
      "crossing dir (map_option (\<lambda>t. t + 86400) ts) e2"
      "2 \<le> total_or_1 (sp_page_total page2)"
  shows "fst (aggregation up hub dir ts ttl w) =
           ok_response ttl (Agg_payload
             \<lparr>ar_flights = ua_flights entries1 @ ua_flights pre2,
              ar_total = length (ua_flights entries1 @ ua_flights pre2),
              ar_totalFetched = length entries1 + length (pre2 @ e2 # post2),
              ar_pagesScanned = 2, ar_totalPages = total_or_1 (sp_page_total page2),
              ar_hub = hub, ar_dir = dir\<rparr>) False \<and>
         map snd (w_dispatched (snd (aggregation up hub dir ts ttl w))) =
           map snd (w_dispatched w) @ [FR24_url hub dir ts 1, FR24_url hub dir ts 2]"
proof -
  let ?w1 = "w\<lparr>w_cache := snd (cacheGet (w_cache w) (Agg_key hub dir ts) (w_clock w)),
               w_lookups := w_lookups w @ [Agg_key hub dir ts]\<rparr>"
  let ?w2 = "snd (rateLimitedFetch up (FR24_url hub dir ts 1) ?w1)"
  let ?w3 = "snd (rateLimitedFetch up (FR24_url hub dir ts 2) ?w2)"
  have same: "w_dispatched ?w1 = w_dispatched w" by simp
  have r1': "us_result (up (length (w_dispatched ?w1)) (FR24_url hub dir ts 1))
               = Http_response True st1 (Json (Some page1))"
    using r1 by simp
  have n2: "length (w_dispatched ?w2) = Suc (length (w_dispatched w))"
    by (simp add: rateLimitedFetch_count)
  have r2': "us_result (up (length (w_dispatched ?w2)) (FR24_url hub dir ts 2))
               = Http_response True st2 (Json (Some page2))"
    unfolding n2 using r2 .
  have step1: "agg_loop up hub dir ts [] 1 1 0 ?w1 =
                 agg_loop up hub dir ts ([] @ ua_flights entries1) (1 + 1)
                   (total_or_1 (sp_page_total page1)) (0 + length entries1) ?w2"
    using agg_loop_quiet [where up = up and w = "?w1" and hub = hub and dir = dir and ts = ts
        and pageNum = 1 and totalPages = 1 and acc = "[]" and fetched = 0 and st = st1
        and sched = page1 and entries = entries1] r1' p1(1,2,3)
    by (simp add: MAX_PAGES_def)
  have step2: "agg_loop up hub dir ts ([] @ ua_flights entries1) (1 + 1)
                   (total_or_1 (sp_page_total page1)) (0 + length entries1) ?w2 =
               (Inr (([] @ ua_flights entries1) @ ua_flights pre2, 1 + 1,
                     total_or_1 (sp_page_total page2),
                     (0 + length entries1) + length (pre2 @ e2 # post2)), ?w3)"
    using agg_loop_crossing [where up = up and w = "?w2" and hub = hub and dir = dir and ts = ts
        and pageNum = "1 + 1" and totalPages = "total_or_1 (sp_page_total page1)"
        and acc = "[] @ ua_flights entries1" and fetched = "0 + length entries1" and st = st2
        and sched = page2 and pre = pre2 and e = e2 and post = post2] r2' p1(4) p2(1,2,3)
    by (simp add: MAX_PAGES_def)
  have loop: "agg_loop up hub dir ts [] 1 1 0 ?w1 =
               (Inr (ua_flights entries1 @ ua_flights pre2, 2, total_or_1 (sp_page_total page2),
                     length entries1 + length (pre2 @ e2 # post2)), ?w3)"
    unfolding step1 step2 by simp
  have urls: "map snd (w_dispatched ?w3) =
                map snd (w_dispatched w) @ [FR24_url hub dir ts 1, FR24_url hub dir ts 2]"
    by (simp add: rateLimitedFetch_urls)
  have scanned: "min 2 (min (total_or_1 (sp_page_total page2)) MAX_PAGES) = 2"
    using p2(4) by (simp add: MAX_PAGES_def)
  show ?thesis
    unfolding aggregation_def Let_def world_cacheGet_miss [OF miss]
    by (simp add: loop scanned urls world_cacheSet_def del: length_append)
qed

lemma sched_handler_aggregation:
  assumes "q_hub q = Some hub" and "hub \<noteq> []" and "q_timestamp q = Some tstr" and "tstr \<noteq> []"
    and "q_page q = None" and "query_dir q = ''departures'' \<or> query_dir q = ''arrivals''"
  shows "sched_handler up q w =
           aggregation up hub (query_dir q) (parseInt tstr)
             (if (case parseInt tstr of None \<Rightarrow> False | Some t \<Rightarrow> w_clock w div 1000 - t > 86400)
              then 300000 else 60000) w"
  using assms by (auto simp: sched_handler_def query_dir_def missing_def Let_def)

text \<open>
  Claim C2, as amended. In the loop over the pages: when the page fetched for \<open>pageNum\<close>
  has an entry \<open>e\<close> that crosses the day boundary (its flight passes the carrier filter and
  its relevant time, scheduled departure for \<open>departures\<close> and scheduled arrival otherwise,
  is present, not zero and at or after \<open>ts + 86400\<close>), the first such entry of the page,
  then the scan of the page stops at \<open>e\<close>: of this page only the filtered flights before
  \<open>e\<close> are added, \<open>e\<close> and the entries after it are not, the whole page counts in
  \<open>totalFetched\<close>, and the loop ends with this \<open>pageNum\<close> after the single request of the
  page. For a request in aggregation mode that misses the cache, with an upstream whose
  page 1 has entries but none crossing, whose page 2 has a crossing entry, and whose
  page totals are at least 2 (3 in the claim): pages 1 and 2 are requested and no other,
  and the answer is 200 with \<open>pagesScanned\<close> = 2.
\<close>

theorem aggregation_stops_past_day:
  "(pageNum \<le> totalPages \<and> pageNum \<le> MAX_PAGES \<and>
    us_result (up (length (w_dispatched w)) (FR24_url hub dir ts pageNum))
      = Http_response True st (Json (Some sched)) \<and>
    sp_data sched = Some (pre @ e # post) \<and>
    list_all (\<lambda>x. \<not> crossing dir (map_option (\<lambda>t. t + 86400) ts) x) pre \<and>
    crossing dir (map_option (\<lambda>t. t + 86400) ts) e \<longrightarrow>
      fst (agg_loop up hub dir ts acc pageNum totalPages fetched w) =
        Inr (acc @ ua_flights pre, pageNum, total_or_1 (sp_page_total sched),
             fetched + length (pre @ e # post)) \<and>
      map snd (w_dispatched (snd (agg_loop up hub dir ts acc pageNum totalPages fetched w))) =
        map snd (w_dispatched w) @ [FR24_url hub dir ts pageNum]) \<and>
   (q_hub q = Some hub' \<and> hub' \<noteq> [] \<and> q_timestamp q = Some tstr \<and> parseInt tstr = Some t0 \<and>
    q_page q = None \<and> (query_dir q = ''departures'' \<or> query_dir q = ''arrivals'') \<and>
    fst (cacheGet (w_cache w') (Agg_key hub' (query_dir q) (Some t0)) (w_clock w')) = None \<and>
    us_result (up' (length (w_dispatched w')) (FR24_url hub' (query_dir q) (Some t0) 1))
      = Http_response True st1 (Json (Some page1)) \<and>
    us_result (up' (Suc (length (w_dispatched w'))) (FR24_url hub' (query_dir q) (Some t0) 2))
      = Http_response True st2 (Json (Some page2)) \<and>
    sp_data page1 = Some entries1 \<and> entries1 \<noteq> [] \<and>
    list_all (\<lambda>x. \<not> crossing (query_dir q) (Some (t0 + 86400)) x) entries1 \<and>
    2 \<le> total_or_1 (sp_page_total page1) \<and>
    sp_data page2 = Some (pre2 @ e2 # post2) \<and>
    list_all (\<lambda>x. \<not> crossing (query_dir q) (Some (t0 + 86400)) x) pre2 \<and>
    crossing (query_dir q) (Some (t0 + 86400)) e2 \<and>
    2 \<le> total_or_1 (sp_page_total page2) \<longrightarrow>
      res_status (fst (sched_handler up' q w')) = 200 \<and>
      res_body (fst (sched_handler up' q w')) =
        Data (Agg_payload
               \<lparr>ar_flights = ua_flights entries1 @ ua_flights pre2,
                ar_total = length (ua_flights entries1 @ ua_flights pre2),
                ar_totalFetched = length entries1 + length (pre2 @ e2 # post2),
                ar_pagesScanned = 2, ar_totalPages = total_or_1 (sp_page_total page2),
                ar_hub = hub', ar_dir = query_dir q\<rparr>) False \<and>
      map snd (w_dispatched (snd (sched_handler up' q w'))) =
        map snd (w_dispatched w') @
          [FR24_url hub' (query_dir q) (Some t0) 1, FR24_url hub' (query_dir q) (Some t0) 2])"
proof (intro conjI impI)
  assume a: "pageNum \<le> totalPages \<and> pageNum \<le> MAX_PAGES \<and>
    us_result (up (length (w_dispatched w)) (FR24_url hub dir ts pageNum))
      = Http_response True st (Json (Some sched)) \<and>
    sp_data sched = Some (pre @ e # post) \<and>
    list_all (\<lambda>x. \<not> crossing dir (map_option (\<lambda>t. t + 86400) ts) x) pre \<and>
    crossing dir (map_option (\<lambda>t. t + 86400) ts) e"
  have loop: "agg_loop up hub dir ts acc pageNum totalPages fetched w =
           (Inr (acc @ ua_flights pre, pageNum, total_or_1 (sp_page_total sched),
                 fetched + length (pre @ e # post)),
            snd (rateLimitedFetch up (FR24_url hub dir ts pageNum) w))"
    using agg_loop_crossing [where up = up and w = w and hub = hub and dir = dir and ts = ts
        and pageNum = pageNum and totalPages = totalPages and acc = acc and fetched = fetched
        and st = st and sched = sched and pre = pre and e = e and post = post] a
    by blast
  show "fst (agg_loop up hub dir ts acc pageNum totalPages fetched w) =
        Inr (acc @ ua_flights pre, pageNum, total_or_1 (sp_page_total sched),
             fetched + length (pre @ e # post))"
    unfolding loop by simp
  show "map snd (w_dispatched (snd (agg_loop up hub dir ts acc pageNum totalPages fetched w))) =
        map snd (w_dispatched w) @ [FR24_url hub dir ts pageNum]"
    unfolding loop by (simp add: rateLimitedFetch_urls)
next
  assume b: "q_hub q = Some hub' \<and> hub' \<noteq> [] \<and> q_timestamp q = Some tstr \<and> parseInt tstr = Some t0 \<and>
    q_page q = None \<and> (query_dir q = ''departures'' \<or> query_dir q = ''arrivals'') \<and>
    fst (cacheGet (w_cache w') (Agg_key hub' (query_dir q) (Some t0)) (w_clock w')) = None \<and>
    us_result (up' (length (w_dispatched w')) (FR24_url hub' (query_dir q) (Some t0) 1))
      = Http_response True st1 (Json (Some page1)) \<and>
    us_result (up' (Suc (length (w_dispatched w'))) (FR24_url hub' (query_dir q) (Some t0) 2))
      = Http_response True st2 (Json (Some page2)) \<and>
    sp_data page1 = Some entries1 \<and> entries1 \<noteq> [] \<and>
    list_all (\<lambda>x. \<not> crossing (query_dir q) (Some (t0 + 86400)) x) entries1 \<and>
    2 \<le> total_or_1 (sp_page_total page1) \<and>
    sp_data page2 = Some (pre2 @ e2 # post2) \<and>
    list_all (\<lambda>x. \<not> crossing (query_dir q) (Some (t0 + 86400)) x) pre2 \<and>
    crossing (query_dir q) (Some (t0 + 86400)) e2 \<and>
    2 \<le> total_or_1 (sp_page_total page2)"
  have ne: "tstr \<noteq> []"
  proof
    assume "tstr = []"
    then have "parseInt tstr = None" by (simp add: parseInt_def startsWith_def str_def)
    with b show False by simp
  qed
  let ?ttl = "if w_clock w' div 1000 - t0 > 86400 then 300000 else 60000"
  have h: "sched_handler up' q w' = aggregation up' hub' (query_dir q) (Some t0) ?ttl w'"
    using sched_handler_aggregation [of q hub' tstr up' w'] b ne by simp
  have agg: "fst (aggregation up' hub' (query_dir q) (Some t0) ?ttl w') =
           ok_response ?ttl (Agg_payload
             \<lparr>ar_flights = ua_flights entries1 @ ua_flights pre2,
              ar_total = length (ua_flights entries1 @ ua_flights pre2),
              ar_totalFetched = length entries1 + length (pre2 @ e2 # post2),
              ar_pagesScanned = 2, ar_totalPages = total_or_1 (sp_page_total page2),
              ar_hub = hub', ar_dir = query_dir q\<rparr>) False \<and>
         map snd (w_dispatched (snd (aggregation up' hub' (query_dir q) (Some t0) ?ttl w'))) =
           map snd (w_dispatched w') @
             [FR24_url hub' (query_dir q) (Some t0) 1, FR24_url hub' (query_dir q) (Some t0) 2]"
    using aggregation_two_pages [where up = up' and w = w' and hub = hub' and dir = "query_dir q"
        and ts = "Some t0" and ttl = ?ttl and ?st1.0 = st1 and ?st2.0 = st2 and ?page1.0 = page1
        and ?page2.0 = page2 and ?entries1.0 = entries1 and ?pre2.0 = pre2 and ?e2.0 = e2
        and ?post2.0 = post2] b
    by simp
  show "res_status (fst (sched_handler up' q w')) = 200"
    unfolding h using agg by (simp add: ok_response_def)
  show "res_body (fst (sched_handler up' q w')) =
        Data (Agg_payload
               \<lparr>ar_flights = ua_flights entries1 @ ua_flights pre2,
                ar_total = length (ua_flights entries1 @ ua_flights pre2),
                ar_totalFetched = length entries1 + length (pre2 @ e2 # post2),
                ar_pagesScanned = 2, ar_totalPages = total_or_1 (sp_page_total page2),
                ar_hub = hub', ar_dir = query_dir q\<rparr>) False"
    unfolding h using agg by (simp add: ok_response_def)
  show "map snd (w_dispatched (snd (sched_handler up' q w'))) =
        map snd (w_dispatched w') @
          [FR24_url hub' (query_dir q) (Some t0) 1, FR24_url hub' (query_dir q) (Some t0) 2]"
    unfolding h using agg by simp
qed

lemma parseInt_1704067200: "parseInt (str ''1704067200'') = Some 1704067200"
  by (simp add: parseInt_def startsWith_def isWhiteSpace_def isRadixDigit_def digitValue_def str_def)

lemmas handler_eval =
  sched_handler_def query_ex_def missing_def aggregation_def world_cacheGet_def cacheGet_def
  Map_get_def world_ex_def agg_loop.simps fetchOnePage_def rateLimitedFetch_def upstream_of_def
  page1_ex_def page2_ex_def page3_ex_def page2_late_ex_def page2_other_ex_def flight_ex_def
  MAX_PAGES_def MIN_REQUEST_INTERVAL_def total_or_1_def truthy_def past_day_def flightTime_def
  ok_response_def world_cacheSet_def Let_def str_eq_Nil

text \<open>
  Claim C2 as stated fails in two ways. With page 2 holding a flight of the carrier at the
  day boundary followed by a flight of the carrier within the day, the second is not in
  the result: the rest of the page is not processed. With page 2 holding a flight of another
  carrier at the day boundary, nothing stops: page 3 is requested and \<open>pagesScanned\<close> is 3.
\<close>

theorem aggregation_breaks_within_page:
  "sp_data page2_late_ex = Some [Some (flight_ex ''UA9'' ''UA'' (Some 1704153600)),
                                Some (flight_ex ''UA3'' ''UA'' (Some 1704110000))] \<and>
   past_day ''departures'' (Some (1704067200 + 86400)) (flight_ex ''UA9'' ''UA'' (Some 1704153600)) \<and>
   \<not> past_day ''departures'' (Some (1704067200 + 86400)) (flight_ex ''UA3'' ''UA'' (Some 1704110000)) \<and>
   res_body (fst (sched_handler (upstream_of [page1_ex, page2_late_ex, page3_ex])
                    (query_ex ''1704067200'') world_ex)) =
     Data (Agg_payload
            \<lparr>ar_flights = [flight_ex ''UA1'' ''UA'' (Some 1704070000)], ar_total = 1,
             ar_totalFetched = 5, ar_pagesScanned = 2, ar_totalPages = 3,
             ar_hub = ''ORD'', ar_dir = ''departures''\<rparr>) False \<and>
   past_day ''departures'' (Some (1704067200 + 86400)) (flight_ex ''AA9'' ''AA'' (Some 1704153600)) \<and>
   sp_data page2_other_ex = Some [Some (flight_ex ''UA2'' ''UA'' (Some 1704100000)),
                                 Some (flight_ex ''AA9'' ''AA'' (Some 1704153600))] \<and>
   res_body (fst (sched_handler (upstream_of [page1_ex, page2_other_ex, page3_ex])
                    (query_ex ''1704067200'') world_ex)) =
     Data (Agg_payload
            \<lparr>ar_flights = [flight_ex ''UA1'' ''UA'' (Some 1704070000),
                           flight_ex ''UA2'' ''UA'' (Some 1704100000),
                           flight_ex ''UA4'' ''UA'' (Some 1704120000)], ar_total = 3,
             ar_totalFetched = 6, ar_pagesScanned = 3, ar_totalPages = 3,
             ar_hub = ''ORD'', ar_dir = ''departures''\<rparr>) False \<and>
   map snd (w_dispatched (snd (sched_handler (upstream_of [page1_ex, page2_other_ex, page3_ex])
                    (query_ex ''1704067200'') world_ex))) =
     [url_ex 1, url_ex 2, url_ex 3]"
  by (simp add: handler_eval parseInt_1704067200 url_ex_def)

theorem aggregation_stops_past_day_witness:
  "sp_data page2_ex = Some ([Some (flight_ex ''UA2'' ''UA'' (Some 1704100000))]
                            @ Some (flight_ex ''UA9'' ''UA'' (Some 1704153600))
                            # [Some (flight_ex ''UA3'' ''UA'' (Some 1704110000))]) \<and>
   crossing ''departures'' (Some (1704067200 + 86400)) (Some (flight_ex ''UA9'' ''UA'' (Some 1704153600))) \<and>
   fst (agg_loop (upstream_of [page1_ex, page2_ex, page3_ex]) ''ORD'' ''departures'' (Some 1704067200)
          [] 2 3 0 world_ex) =
     Inr ([flight_ex ''UA2'' ''UA'' (Some 1704100000)], 2, 3, 3) \<and>
   parseInt (str ''1704067200'') = Some 1704067200 \<and>
   fst (cacheGet (w_cache world_ex) (Agg_key ''ORD'' ''departures'' (Some 1704067200)) (w_clock world_ex))
     = None \<and>
   res_status (fst (sched_handler (upstream_of [page1_ex, page2_ex, page3_ex])
                      (query_ex ''1704067200'') world_ex)) = 200 \<and>
   res_body (fst (sched_handler (upstream_of [page1_ex, page2_ex, page3_ex])
                    (query_ex ''1704067200'') world_ex)) =
     Data (Agg_payload
            \<lparr>ar_flights = [flight_ex ''UA1'' ''UA'' (Some 1704070000),
                           flight_ex ''UA2'' ''UA'' (Some 1704100000)], ar_total = 2,
             ar_totalFetched = 6, ar_pagesScanned = 2, ar_totalPages = 3,
             ar_hub = ''ORD'', ar_dir = ''departures''\<rparr>) False \<and>
   map snd (w_dispatched (snd (sched_handler (upstream_of [page1_ex, page2_ex, page3_ex])
                    (query_ex ''1704067200'') world_ex))) = [url_ex 1, url_ex 2]"
  using aggregation_stops_past_day [where pageNum = 2 and totalPages = 3
      and up = "upstream_of [page1_ex, page2_ex, page3_ex]" and w = world_ex and hub = "''ORD''"
      and dir = "''departures''" and ts = "Some 1704067200" and st = 200 and sched = page2_ex
      and pre = "[Some (flight_ex ''UA2'' ''UA'' (Some 1704100000))]"
      and e = "Some (flight_ex ''UA9'' ''UA'' (Some 1704153600))"
      and post = "[Some (flight_ex ''UA3'' ''UA'' (Some 1704110000))]"
      and acc = "[]" and fetched = 0
      and q = "query_ex ''1704067200''" and hub' = "''ORD''" and tstr = "str ''1704067200''"
      and ?t0.0 = 1704067200 and w' = world_ex
      and up' = "upstream_of [page1_ex, page2_ex, page3_ex]" and ?st1.0 = 200 and ?st2.0 = 200
      and ?page1.0 = page1_ex and ?page2.0 = page2_ex
      and ?entries1.0 = "[Some (flight_ex ''UA1'' ''UA'' (Some 1704070000)),
                      Some (flight_ex ''AA7'' ''AA'' (Some 1704071000)), None]"
      and ?pre2.0 = "[Some (flight_ex ''UA2'' ''UA'' (Some 1704100000))]"
      and ?e2.0 = "Some (flight_ex ''UA9'' ''UA'' (Some 1704153600))"
      and ?post2.0 = "[Some (flight_ex ''UA3'' ''UA'' (Some 1704110000))]"]
  by (simp add: handler_eval parseInt_1704067200 url_ex_def crossing_def query_dir_def)

end
